theory Spec2Isabelle
  imports Main "HOL-Library.AList" "HOL-Library.Sublist"
begin

section \<open>Exceptions\<close>

text \<open>
  The exceptions that \<^verbatim>\<open>py_make_name.py\<close> raises itself or lets through from the
  standard library. The three that the script raises with a message of its own carry
  that message; for operating-system errors the message is the path concerned.
\<close>

datatype error =
    ValueError string
  | FileExistsError string
  | FileNotFoundError string
  | NotADirectoryError
  | IsADirectoryError
  | PermissionError
  | OSError
  | ShutilError
  | NoSectionError
  | NoOptionError
  | ParsingError
  | TypeError
  | AssertionError
  | UnicodeEncodeError
  | RecursionError

section \<open>Strings\<close>

text \<open>
  Strings are lists of 8-bit characters; the model reads them as ASCII text.
  \<open>lower\<close> is \<^verbatim>\<open>str.lower\<close> on ASCII: the letters A to Z move to a to z and every
  other character stays.
\<close>

definition lower_char :: "char \<Rightarrow> char" where
  "lower_char c =
     (if (65::nat) \<le> of_char c \<and> of_char c \<le> (90::nat)
      then char_of (of_char c + (32::nat)) else c)"

definition lower :: "string \<Rightarrow> string" where
  "lower s = map lower_char s"

text \<open>Python's \<^verbatim>\<open>sub in s\<close> on strings: \<open>sub\<close> occurs in \<open>s\<close> as a contiguous run.\<close>

fun contains :: "string \<Rightarrow> string \<Rightarrow> bool" where
  "contains sub [] = (sub = [])"
| "contains sub (c # s) = (prefix sub (c # s) \<or> contains sub s)"

text \<open>
  \<^verbatim>\<open>str.replace(old, new)\<close> for a non-empty \<open>old\<close>: every occurrence, found from left
  to right without overlap, is replaced.
\<close>

function replace_all :: "string \<Rightarrow> string \<Rightarrow> string \<Rightarrow> string" where
  "replace_all old new s =
     (if s = [] \<or> old = [] then s
      else if prefix old s then new @ replace_all old new (drop (length old) s)
      else hd s # replace_all old new (tl s))"
  by pat_completeness auto
termination
  by (relation "measure (\<lambda>(old, new, s). length s)") auto

declare replace_all.simps [simp del]

text \<open>\<^verbatim>\<open>s.split(d)\<close>: the pieces of \<open>s\<close> between the occurrences of the character \<open>d\<close>.\<close>

fun split_on :: "char \<Rightarrow> string \<Rightarrow> string list" where
  "split_on d [] = [[]]"
| "split_on d (c # s) =
     (if c = d then [] # split_on d s
      else (case split_on d s of [] \<Rightarrow> [[c]] | x # xs \<Rightarrow> (c # x) # xs))"


section \<open>The environment\<close>

text \<open>
  A path is the list of its components below the root directory \<^verbatim>\<open>/\<close>. Symbolic links
  are not modelled.
\<close>

type_synonym path = "string list"

text \<open>The system calls that the environment may refuse.\<close>

datatype op = OpList | OpRead | OpOpen | OpMkdir | OpRemove | OpRename | OpChmod

text \<open>
  \<^verbatim>\<open>configparser.ConfigParser\<close>: a configuration holds the options of its
  \<^verbatim>\<open>DEFAULT\<close> section and the list of its other sections, each with its options in
  order.
\<close>

type_synonym options = "(string \<times> string) list"

record config =
  defaults :: options
  sections :: "(string \<times> options) list"

text \<open>
  What the script takes from outside itself and does not change:
  \<^item> \<open>denied\<close>: the system calls that fail for want of permission; a refused call
    raises \<^verbatim>\<open>PermissionError\<close>;
  \<^item> \<open>write_fault\<close>: for a path and a text to be written there, the error that stops
    the write and the number of characters that reach the file before it, if the write
    does not go through (a full disk, a character that cannot be encoded);
  \<^item> \<open>eexist_on_nonempty\<close>: whether renaming a directory onto a directory that is not
    empty fails with \<^verbatim>\<open>EEXIST\<close> (\<^verbatim>\<open>FileExistsError\<close>) or, as on Linux, with
    \<^verbatim>\<open>ENOTEMPTY\<close> (\<^verbatim>\<open>OSError\<close>); POSIX allows both;
  \<^item> \<open>parse_ini\<close>: the configuration that \<^verbatim>\<open>ConfigParser.read\<close> parses from a text;
  \<^item> \<open>interpolate\<close>: what \<^verbatim>\<open>ConfigParser.get\<close> makes of a stored value that
    contains \<^verbatim>\<open>%\<close>, given the configuration and the section;
  \<^item> \<open>re_sub_special\<close>: \<^verbatim>\<open>re.sub(pattern, repl, string, flags=re.IGNORECASE)\<close> for a
    pattern with regular-expression metacharacters or a replacement with a backslash.
\<close>

record env =
  denied :: "op \<Rightarrow> path \<Rightarrow> bool"
  write_fault :: "path \<Rightarrow> string \<Rightarrow> (error \<times> nat) option"
  eexist_on_nonempty :: bool
  parse_ini :: "string \<Rightarrow> error + config"
  interpolate :: "config \<Rightarrow> string \<Rightarrow> string \<Rightarrow> error + string"
  re_sub_special :: "string \<Rightarrow> string \<Rightarrow> string \<Rightarrow> error + string"

section \<open>Regular-expression substitution\<close>

text \<open>
  \<^verbatim>\<open>re.sub(pattern, repl, string, flags=re.IGNORECASE)\<close> for a pattern without
  metacharacters: the string is scanned from left to right, every occurrence of the
  pattern, compared without regard to case, is replaced by \<open>repl\<close>, and occurrences do
  not overlap. The empty pattern matches before every character and at the end.
\<close>

definition metachars :: "char set" where
  "metachars = {CHR ''.'', CHR ''^'', CHR ''$'', CHR ''*'', CHR ''+'', CHR ''?'',
                CHR ''{'', CHR ''}'', CHR ''['', CHR '']'', CHR 0x5C, CHR ''|'',
                CHR ''('', CHR '')''}"

function sub_literal :: "string \<Rightarrow> string \<Rightarrow> string \<Rightarrow> string" where
  "sub_literal pat repl s =
     (if s = [] \<or> pat = [] then s
      else if prefix (lower pat) (lower s)
           then repl @ sub_literal pat repl (drop (length pat) s)
      else hd s # sub_literal pat repl (tl s))"
  by pat_completeness auto
termination
  by (relation "measure (\<lambda>(pat, repl, s). length s)") auto

declare sub_literal.simps [simp del]

definition re_sub :: "env \<Rightarrow> string \<Rightarrow> string \<Rightarrow> string \<Rightarrow> error + string" where
  "re_sub E pat repl s =
     (if set pat \<inter> metachars \<noteq> {} \<or> CHR 0x5C \<in> set repl then re_sub_special E pat repl s
      else if pat = [] then Inr (repl @ concat (map (\<lambda>c. c # repl) s))
      else Inr (sub_literal pat repl s))"

section \<open>The name of a renamed package\<close>

text \<open>
  Lines 149 to 154 of \<^verbatim>\<open>rename_packages\<close>: the new name of the package directory
  \<open>parent_name\<close>, for the old library name \<open>old_name\<close> and the new one \<open>target_name\<close>.
  The arguments of \<^verbatim>\<open>re.sub\<close> are in the order of the source: the pattern is
  \<open>parent_name\<close>, the replacement \<open>old_name\<close>, and the string searched \<open>target_name\<close>.
\<close>

definition new_name_for :: "env \<Rightarrow> string \<Rightarrow> string \<Rightarrow> string \<Rightarrow> error + string" where
  "new_name_for E old_name parent_name target_name =
     (if contains (lower old_name) (lower parent_name)
      then re_sub E parent_name old_name target_name
      else Inr target_name)"


section \<open>The file system\<close>

text \<open>
  A file holds its text; a directory holds its entries in the order in which the
  operating system lists them. The whole file system is the node of the root directory.
\<close>

datatype node = File string | Dir "(string \<times> node) list"

text \<open>
  A directory entry has a name that is not empty, is not \<^verbatim>\<open>.\<close> or \<^verbatim>\<open>..\<close> and holds
  no \<^verbatim>\<open>/\<close>: nothing is found, and nothing can be made, under another name.
\<close>

definition valid_name :: "string \<Rightarrow> bool" where
  "valid_name c = (c \<noteq> [] \<and> c \<noteq> ''.'' \<and> c \<noteq> ''..'' \<and> CHR ''/'' \<notin> set c)"

fun lookup :: "node \<Rightarrow> path \<Rightarrow> node option" where
  "lookup n [] = Some n"
| "lookup (File s) (c # p) = None"
| "lookup (Dir kids) (c # p) =
     (if valid_name c
      then (case map_of kids c of None \<Rightarrow> None | Some k \<Rightarrow> lookup k p)
      else None)"

text \<open>
  \<open>upd p x fs\<close> puts \<open>x\<close> at the path \<open>p\<close>: \<open>None\<close> removes the entry, \<open>Some n\<close>
  replaces it where it stands or, if it is new, adds it after the other entries of its
  directory. Nothing changes where the directory that should hold \<open>p\<close> does not exist.
\<close>

fun upd :: "path \<Rightarrow> node option \<Rightarrow> node \<Rightarrow> node" where
  "upd [] x n = (case x of None \<Rightarrow> n | Some m \<Rightarrow> m)"
| "upd (c # p) x (File s) = File s"
| "upd (c # p) x (Dir kids) =
     (if \<not> valid_name c then Dir kids
      else if p = [] then
        Dir (case x of None \<Rightarrow> AList.delete c kids | Some m \<Rightarrow> AList.update c m kids)
      else
        Dir (case map_of kids c of None \<Rightarrow> kids
             | Some k \<Rightarrow> AList.update c (upd p x k) kids))"

definition is_dir :: "node \<Rightarrow> path \<Rightarrow> bool" where
  "is_dir fs p = (case lookup fs p of Some (Dir kids) \<Rightarrow> True | _ \<Rightarrow> False)"

definition path_str :: "path \<Rightarrow> string" where
  "path_str p = (if p = [] then ''/'' else concat (map (\<lambda>c. CHR ''/'' # c) p))"

subsection \<open>Paths as \<^verbatim>\<open>pathlib\<close> and the kernel read them\<close>

text \<open>\<^verbatim>\<open>pathlib.Path.parent\<close>: the root is its own parent.\<close>

definition parent :: "path \<Rightarrow> path" where
  "parent p = butlast p"

text \<open>
  The components of a path string: the kernel splits it at \<^verbatim>\<open>/\<close> and passes over
  empty components; \<^verbatim>\<open>pathlib\<close> drops the components \<^verbatim>\<open>.\<close> too.
\<close>

definition kernel_parts :: "string \<Rightarrow> path" where
  "kernel_parts s = filter (\<lambda>c. c \<noteq> []) (split_on CHR ''/'' s)"

definition parts :: "string \<Rightarrow> path" where
  "parts s = filter (\<lambda>c. c \<noteq> ''.'') (kernel_parts s)"

definition absolute :: "string \<Rightarrow> bool" where
  "absolute s = (s \<noteq> [] \<and> hd s = CHR ''/'')"

text \<open>
  The operator \<^verbatim>\<open>/\<close> of \<^verbatim>\<open>pathlib\<close> with a string on its right: the components of
  the string are added to the path, and an absolute string stands alone.
\<close>

definition path_div :: "path \<Rightarrow> string \<Rightarrow> path" where
  "path_div base s = (if absolute s then parts s else base @ parts s)"

text \<open>
  The walk of the kernel along the components \<open>p\<close>, from the directory \<open>acc\<close>: every
  component is looked for in a directory that must exist, \<^verbatim>\<open>.\<close> stays there and
  \<^verbatim>\<open>..\<close> goes to its parent. The result is the path of the entry named, which need not
  exist itself.
\<close>

fun resolve :: "node \<Rightarrow> path \<Rightarrow> path \<Rightarrow> error + path" where
  "resolve fs acc [] = Inr acc"
| "resolve fs acc (c # rest) =
     (case lookup fs acc of
        None \<Rightarrow> Inl (FileNotFoundError (path_str (acc @ [c])))
      | Some (File s) \<Rightarrow> Inl NotADirectoryError
      | Some (Dir kids) \<Rightarrow>
          if c = ''.'' then resolve fs acc rest
          else if c = ''..'' then resolve fs (butlast acc) rest
          else resolve fs (acc @ [c]) rest)"

text \<open>The same walk without the file system: where \<open>resolve\<close> arrives, if it arrives.\<close>

fun lexical :: "path \<Rightarrow> path \<Rightarrow> path" where
  "lexical acc [] = acc"
| "lexical acc (c # rest) =
     (if c = ''.'' then lexical acc rest
      else if c = ''..'' then lexical (butlast acc) rest
      else lexical (acc @ [c]) rest)"

text \<open>\<^verbatim>\<open>Path.exists()\<close>: a path that cannot be walked does not exist.\<close>

definition path_exists :: "node \<Rightarrow> path \<Rightarrow> bool" where
  "path_exists fs p = (case resolve fs [] p of Inl e \<Rightarrow> False | Inr q \<Rightarrow> lookup fs q \<noteq> None)"

subsection \<open>Reading and writing a file\<close>

text \<open>
  The script reads and writes files at paths that it builds from the working directory
  \<^verbatim>\<open>os.getcwd()\<close>, which has no component \<^verbatim>\<open>.\<close> or \<^verbatim>\<open>..\<close>.
\<close>

text \<open>\<^verbatim>\<open>Path.read_text()\<close>.\<close>

definition read_text :: "env \<Rightarrow> node \<Rightarrow> path \<Rightarrow> error + string" where
  "read_text E fs p =
     (case lookup fs p of
        None \<Rightarrow> Inl (FileNotFoundError (path_str p))
      | Some (Dir kids) \<Rightarrow> Inl IsADirectoryError
      | Some (File s) \<Rightarrow> if denied E OpRead p then Inl PermissionError else Inr s)"

text \<open>
  \<^verbatim>\<open>open(path, mode="w")\<close> creates the file or empties the one that is there, before
  anything is written to it.
\<close>

definition open_w :: "env \<Rightarrow> node \<Rightarrow> path \<Rightarrow> error + node" where
  "open_w E fs p =
     (case lookup fs p of
        Some (Dir kids) \<Rightarrow> Inl IsADirectoryError
      | _ \<Rightarrow>
        (case lookup fs (parent p) of
           None \<Rightarrow> Inl (FileNotFoundError (path_str p))
         | Some (File s) \<Rightarrow> Inl NotADirectoryError
         | Some (Dir kids) \<Rightarrow>
             if p = [] \<or> \<not> valid_name (last p) then Inl (FileNotFoundError (path_str p))
             else if denied E OpOpen p then Inl PermissionError
             else Inr (upd p (Some (File [])) fs)))"

text \<open>
  Opening a file for writing and then writing \<open>s\<close> to it, as
  \<^verbatim>\<open>with open(path, mode="w") as f: ...write(f)\<close> and \<^verbatim>\<open>Path.write_text\<close> do. A write
  that fails leaves in the file, already emptied by the open, the characters that
  reached it.
\<close>

definition write_text :: "env \<Rightarrow> node \<Rightarrow> path \<Rightarrow> string \<Rightarrow> (error + unit) \<times> node" where
  "write_text E fs p s =
     (case open_w E fs p of
        Inl e \<Rightarrow> (Inl e, fs)
      | Inr fs1 \<Rightarrow>
          (case write_fault E p s of
             Some (e, k) \<Rightarrow> (Inl e, upd p (Some (File (take k s))) fs1)
           | None \<Rightarrow> (Inr (), upd p (Some (File s)) fs1)))"

subsection \<open>\<^verbatim>\<open>os.makedirs\<close>\<close>

text \<open>
  \<^verbatim>\<open>os.mkdir(p)\<close>: the directory that is to hold the new one is found by the walk of
  the kernel; the last component must name nothing that exists.
\<close>

definition mkdir :: "env \<Rightarrow> node \<Rightarrow> path \<Rightarrow> (error + unit) \<times> node" where
  "mkdir E fs p =
     (if p = [] then (Inl (FileExistsError (path_str p)), fs)
      else
        (case resolve fs [] (butlast p) of
           Inl e \<Rightarrow> (Inl e, fs)
         | Inr d \<Rightarrow>
             (case lookup fs d of
                None \<Rightarrow> (Inl (FileNotFoundError (path_str p)), fs)
              | Some (File s) \<Rightarrow> (Inl NotADirectoryError, fs)
              | Some (Dir kids) \<Rightarrow>
                  if last p = ''.'' \<or> last p = ''..'' \<or> lookup fs (d @ [last p]) \<noteq> None
                  then (Inl (FileExistsError (path_str p)), fs)
                  else if \<not> valid_name (last p) then (Inl (FileNotFoundError (path_str p)), fs)
                  else if denied E OpMkdir (d @ [last p]) then (Inl PermissionError, fs)
                  else (Inr (), upd (d @ [last p]) (Some (Dir [])) fs))))"

text \<open>
  \<^verbatim>\<open>os.makedirs(name)\<close>, on the components of \<open>name\<close> in reverse: if the path without
  its last component does not exist, it is made first, in the same way, and a
  \<^verbatim>\<open>FileExistsError\<close> from that is passed over; then the directory itself is made. What
  was made stays when a later step fails.
\<close>

fun makedirs_rev :: "env \<Rightarrow> node \<Rightarrow> path \<Rightarrow> (error + unit) \<times> node" where
  "makedirs_rev E fs [] = mkdir E fs []"
| "makedirs_rev E fs (tail # head) =
     (if head \<noteq> [] \<and> \<not> path_exists fs (rev head)
      then (case makedirs_rev E fs head of
              (Inr u, fs1) \<Rightarrow> mkdir E fs1 (rev (tail # head))
            | (Inl (FileExistsError m), fs1) \<Rightarrow> mkdir E fs1 (rev (tail # head))
            | (Inl e, fs1) \<Rightarrow> (Inl e, fs1))
      else mkdir E fs (rev (tail # head)))"

definition makedirs :: "env \<Rightarrow> node \<Rightarrow> path \<Rightarrow> (error + unit) \<times> node" where
  "makedirs E fs p = makedirs_rev E fs (rev p)"

subsection \<open>\<^verbatim>\<open>shutil.copytree\<close>\<close>

text \<open>
  The copy of one entry below the destination directory: \<open>None\<close> if it could not be
  made, and \<open>True\<close> if an error was recorded for it or for anything below it. A file
  whose data cannot all be written holds what was written; a refused \<^verbatim>\<open>chmod\<close> stands
  for a failure of \<^verbatim>\<open>copystat\<close>, which comes after the data. A failure below the top
  directory does not stop \<^verbatim>\<open>copytree\<close>: the error is recorded, the other entries are
  copied, and \<^verbatim>\<open>shutil.Error\<close> is raised at the end.
\<close>

fun copy_node :: "env \<Rightarrow> path \<Rightarrow> path \<Rightarrow> node \<Rightarrow> bool \<times> node option"
  and copy_kids :: "env \<Rightarrow> path \<Rightarrow> path \<Rightarrow> (string \<times> node) list \<Rightarrow> bool \<times> (string \<times> node) list"
where
  "copy_node E src dst (File s) =
     (if denied E OpRead src \<or> denied E OpOpen dst then (True, None)
      else (case write_fault E dst s of
              Some (e, k) \<Rightarrow> (True, Some (File (take k s)))
            | None \<Rightarrow> (denied E OpChmod dst, Some (File s))))"
| "copy_node E src dst (Dir kids) =
     (if denied E OpList src \<or> denied E OpMkdir dst then (True, None)
      else (case copy_kids E src dst kids of
              (errors, kids') \<Rightarrow> (errors \<or> denied E OpChmod dst, Some (Dir kids'))))"
| "copy_kids E src dst [] = (False, [])"
| "copy_kids E src dst (nk # rest) =
     (case copy_node E (src @ [fst nk]) (dst @ [fst nk]) (snd nk) of
        (e1, r) \<Rightarrow>
          (case copy_kids E src dst rest of
             (e2, rest') \<Rightarrow>
               (e1 \<or> e2, (case r of None \<Rightarrow> rest' | Some k \<Rightarrow> (fst nk, k) # rest'))))"

text \<open>
  \<^verbatim>\<open>shutil.copytree(src, dst)\<close>: the source is listed, then the destination directory
  is made with \<^verbatim>\<open>os.makedirs\<close>; a failure of either is raised at once. The entries
  listed are then copied. The directories below the source are listed when their turn
  comes: if the destination lies inside one of them, the copy finds its own output there
  and copies it again, deeper each time, until the interpreter or the operating system
  stops it; of that run the model keeps the error and the directories that
  \<^verbatim>\<open>os.makedirs\<close> made.
\<close>

definition copytree :: "env \<Rightarrow> node \<Rightarrow> path \<Rightarrow> path \<Rightarrow> (error + unit) \<times> node" where
  "copytree E fs src dst =
     (case resolve fs [] src of
        Inl e \<Rightarrow> (Inl e, fs)
      | Inr s \<Rightarrow>
     (case lookup fs s of
        None \<Rightarrow> (Inl (FileNotFoundError (path_str src)), fs)
      | Some (File x) \<Rightarrow> (Inl NotADirectoryError, fs)
      | Some (Dir kids) \<Rightarrow>
          if denied E OpList s then (Inl PermissionError, fs)
          else
            (case makedirs E fs dst of
               (Inl e, fs1) \<Rightarrow> (Inl e, fs1)
             | (Inr u, fs1) \<Rightarrow>
            (case resolve fs1 [] dst of
               Inl e \<Rightarrow> (Inl e, fs1)
             | Inr d \<Rightarrow>
                 if strict_prefix s (butlast d) then (Inl RecursionError, fs1)
                 else
                   (case copy_kids E s d kids of
                      (errors, kids') \<Rightarrow>
                        (if errors \<or> denied E OpChmod d then Inl ShutilError else Inr (),
                         upd d (Some (Dir kids')) fs1))))))"

subsection \<open>\<^verbatim>\<open>shutil.rmtree\<close>\<close>

text \<open>
  What is left of an entry when \<^verbatim>\<open>rmtree\<close> has worked on it: \<open>None\<close> if it is gone.
  The entries of a directory are removed in their order, then the directory itself;
  the first call that is refused raises, and what was removed before stays removed.
\<close>

fun rm_node :: "env \<Rightarrow> path \<Rightarrow> node \<Rightarrow> node option"
  and rm_kids :: "env \<Rightarrow> path \<Rightarrow> (string \<times> node) list \<Rightarrow> (string \<times> node) list"
where
  "rm_node E p (File s) = (if denied E OpRemove p then Some (File s) else None)"
| "rm_node E p (Dir kids) =
     (if denied E OpList p then Some (Dir kids)
      else (case rm_kids E p kids of
              [] \<Rightarrow> if denied E OpRemove p then Some (Dir []) else None
            | left \<Rightarrow> Some (Dir left)))"
| "rm_kids E p [] = []"
| "rm_kids E p (nk # rest) =
     (case rm_node E (p @ [fst nk]) (snd nk) of
        None \<Rightarrow> rm_kids E p rest
      | Some k \<Rightarrow> (fst nk, k) # rest)"

text \<open>
  \<^verbatim>\<open>shutil.rmtree\<close> with the default error handling, at the directory \<open>p\<close> that the
  walk of the kernel arrived at. The root directory cannot be removed, though everything
  in it can.
\<close>

definition rmtree_at :: "env \<Rightarrow> node \<Rightarrow> path \<Rightarrow> (error + unit) \<times> node" where
  "rmtree_at E fs p =
     (case lookup fs p of
        None \<Rightarrow> (Inl (FileNotFoundError (path_str p)), fs)
      | Some (File s) \<Rightarrow> (Inl NotADirectoryError, fs)
      | Some (Dir kids) \<Rightarrow>
          (case rm_node E p (Dir kids) of
             Some left \<Rightarrow> (Inl PermissionError, upd p (Some left) fs)
           | None \<Rightarrow> if p = [] then (Inl OSError, Dir []) else (Inr (), upd p None fs)))"

definition rmtree :: "env \<Rightarrow> node \<Rightarrow> path \<Rightarrow> (error + unit) \<times> node" where
  "rmtree E fs p =
     (case resolve fs [] p of
        Inl e \<Rightarrow> (Inl e, fs)
      | Inr q \<Rightarrow> rmtree_at E fs q)"

subsection \<open>\<^verbatim>\<open>os.rename\<close>, \<^verbatim>\<open>os.chmod\<close> and \<^verbatim>\<open>glob\<close>\<close>

text \<open>
  \<^verbatim>\<open>os.rename(src, dst)\<close> under POSIX: a directory replaces an empty directory, a file
  replaces a file, and renaming an entry to itself does nothing. A directory cannot
  replace a directory that has entries; POSIX lets the call fail with \<^verbatim>\<open>EEXIST\<close> or
  \<^verbatim>\<open>ENOTEMPTY\<close> then, and the environment says which. The script renames an entry of
  the working directory to another name in the same directory.
\<close>

definition rename_path :: "env \<Rightarrow> node \<Rightarrow> path \<Rightarrow> path \<Rightarrow> error + node" where
  "rename_path E fs src dst =
     (case lookup fs src of
        None \<Rightarrow> Inl (FileNotFoundError (path_str src))
      | Some n \<Rightarrow>
          if src = [] \<or> dst = [] \<or> \<not> valid_name (last dst) then Inl OSError
          else if denied E OpRename src then Inl PermissionError
          else if dst = src then Inr fs
          else if strict_prefix src dst then Inl OSError
          else if \<not> is_dir fs (parent dst) then Inl (FileNotFoundError (path_str dst))
          else
            (case (n, lookup fs dst) of
               (_, None) \<Rightarrow> Inr (upd dst (Some n) (upd src None fs))
             | (File s, Some (File t)) \<Rightarrow> Inr (upd dst (Some n) (upd src None fs))
             | (File s, Some (Dir kids)) \<Rightarrow> Inl IsADirectoryError
             | (Dir ks, Some (File t)) \<Rightarrow> Inl NotADirectoryError
             | (Dir ks, Some (Dir kids)) \<Rightarrow>
                 if kids = [] then Inr (upd dst (Some n) (upd src None fs))
                 else if eexist_on_nonempty E then Inl (FileExistsError (path_str dst))
                 else Inl OSError))"

text \<open>
  \<^verbatim>\<open>os.chmod\<close> changes no content; what the operating system refuses is fixed by
  \<open>denied\<close>.
\<close>

definition chmod :: "env \<Rightarrow> node \<Rightarrow> path \<Rightarrow> error + unit" where
  "chmod E fs p =
     (case resolve fs [] p of
        Inl e \<Rightarrow> Inl e
      | Inr q \<Rightarrow>
          if lookup fs q = None then Inl (FileNotFoundError (path_str p))
          else if denied E OpChmod q then Inl PermissionError
          else Inr ())"

text \<open>
  The directories that the pattern \<^verbatim>\<open>./*\<close> of \<^verbatim>\<open>iglob("./*/__init__.py")\<close> matches in
  the directory \<open>d\<close>: its entries that are directories and whose names do not start with
  a dot, in listing order. \<^verbatim>\<open>glob\<close> reads the listing once, when the iteration starts,
  and takes a directory that cannot be listed for an empty one.
\<close>

definition hidden :: "string \<Rightarrow> bool" where
  "hidden name = (name \<noteq> [] \<and> hd name = CHR ''.'')"

definition is_Dir :: "node \<Rightarrow> bool" where
  "is_Dir n = (case n of Dir kids \<Rightarrow> True | File s \<Rightarrow> False)"

definition glob_dirs :: "env \<Rightarrow> node \<Rightarrow> path \<Rightarrow> string list" where
  "glob_dirs E fs d =
     (case lookup fs d of
        Some (Dir kids) \<Rightarrow>
          if denied E OpList d then []
          else filter (\<lambda>name. \<not> hidden name \<and> is_dir fs (d @ [name])) (map fst kids)
      | _ \<Rightarrow> [])"

text \<open>
  Two file systems that differ at most at the path \<open>t\<close> and below it, and agree on
  whether \<open>t\<close> is a directory.
\<close>

definition same_outside :: "path \<Rightarrow> node \<Rightarrow> node \<Rightarrow> bool" where
  "same_outside t a b = (upd t None a = upd t None b \<and> is_dir a t = is_dir b t)"


section \<open>The configuration store\<close>

text \<open>
  \<^verbatim>\<open>ConfigParser.read\<close> skips a file that is missing or cannot be opened and gives
  the empty configuration then.
\<close>

definition empty_config :: config where
  "empty_config = \<lparr>defaults = [], sections = []\<rparr>"

definition load_cfg :: "env \<Rightarrow> node \<Rightarrow> path \<Rightarrow> error + config" where
  "load_cfg E fs config_path =
     (case lookup fs config_path of
        Some (File s) \<Rightarrow> if denied E OpRead config_path then Inr empty_config else parse_ini E s
      | _ \<Rightarrow> Inr empty_config)"

text \<open>
  \<^verbatim>\<open>config.get(section, option)\<close>: the name of the option is put in lower case
  (\<^verbatim>\<open>optionxform\<close>); an option that the section does not have is looked for among the
  defaults; \<^verbatim>\<open>DEFAULT\<close> names the defaults themselves.
\<close>

definition default_section :: string where
  "default_section = ''DEFAULT''"

definition cfg_get :: "env \<Rightarrow> config \<Rightarrow> string \<Rightarrow> string \<Rightarrow> error + string" where
  "cfg_get E c sec opt =
     (case (case map_of (sections c) sec of
              None \<Rightarrow> if sec = default_section then Some [] else None
            | Some opts \<Rightarrow> Some opts) of
        None \<Rightarrow> Inl NoSectionError
      | Some opts \<Rightarrow>
          (case (case map_of opts (lower opt) of
                   None \<Rightarrow> map_of (defaults c) (lower opt)
                 | Some v \<Rightarrow> Some v) of
             None \<Rightarrow> Inl NoOptionError
           | Some v \<Rightarrow> if CHR ''%'' \<in> set v then interpolate E c sec v else Inr v))"

text \<open>
  \<^verbatim>\<open>BasicInterpolation.before_set\<close>, which \<^verbatim>\<open>set\<close> applies to a non-empty value: with
  every \<^verbatim>\<open>%%\<close> and then every \<^verbatim>\<open>%(name)s\<close> taken out, no \<^verbatim>\<open>%\<close> may be left.
\<close>

fun strip_pp :: "string \<Rightarrow> string" where
  "strip_pp (a # b # s) =
     (if a = CHR ''%'' \<and> b = CHR ''%'' then strip_pp s else a # strip_pp (b # s))"
| "strip_pp s = s"

function strip_keys :: "string \<Rightarrow> string" where
  "strip_keys s =
     (if s = [] then []
      else
        (let body = takeWhile (\<lambda>c. c \<noteq> CHR '')'') (drop 2 s);
             rest = dropWhile (\<lambda>c. c \<noteq> CHR '')'') (drop 2 s)
         in if prefix ''%('' s \<and> body \<noteq> [] \<and> prefix '')s'' rest
            then strip_keys (drop 2 rest)
            else hd s # strip_keys (tl s)))"
  by pat_completeness auto
termination
proof (relation "measure length")
  show "wf (measure length)" by simp
next
  fix s :: string and body rest
  assume "s \<noteq> []" and r: "rest = dropWhile (\<lambda>c. c \<noteq> CHR '')'') (drop 2 s)"
  have "length rest \<le> length (drop 2 s)"
    unfolding r by (rule length_dropWhile_le)
  with \<open>s \<noteq> []\<close> show "(drop 2 rest, s) \<in> measure length"
    by (cases s) auto
next
  fix s :: string
  assume "s \<noteq> []"
  then show "(tl s, s) \<in> measure length" by (cases s) auto
qed

declare strip_keys.simps [simp del]

definition bad_percent :: "string \<Rightarrow> bool" where
  "bad_percent v = (CHR ''%'' \<in> set (strip_keys (strip_pp v)))"

text \<open>
  \<^verbatim>\<open>config.set(section, option, value)\<close>: \<^verbatim>\<open>ValueError\<close> for a value that
  \<^verbatim>\<open>before_set\<close> rejects. The empty section name and \<^verbatim>\<open>DEFAULT\<close> name the defaults;
  any other section must be there, or \<^verbatim>\<open>NoSectionError\<close> is raised. The option, its
  name in lower case, is overwritten where it stands or added at the end.
\<close>

definition cfg_set :: "config \<Rightarrow> string \<Rightarrow> string \<Rightarrow> string \<Rightarrow> error + config" where
  "cfg_set c sec opt v =
     (if v \<noteq> [] \<and> bad_percent v then Inl (ValueError ''invalid interpolation syntax'')
      else if sec = [] \<or> sec = default_section
      then Inr (c\<lparr>defaults := AList.update (lower opt) v (defaults c)\<rparr>)
      else
        (case map_of (sections c) sec of
           None \<Rightarrow> Inl NoSectionError
         | Some opts \<Rightarrow>
             Inr (c\<lparr>sections := AList.update sec (AList.update (lower opt) v opts) (sections c)\<rparr>)))"

text \<open>
  \<^verbatim>\<open>config.write(f)\<close> writes the defaults first, if there are any, then the sections:
  for each its name in brackets, its options as \<^verbatim>\<open>key = value\<close> lines, a line break in
  a value followed by a tab, and an empty line.
\<close>

definition write_section :: "string \<Rightarrow> options \<Rightarrow> string" where
  "write_section name items =
     ''['' @ name @ '']'' @ [CHR 0x0A] @
     concat (map (\<lambda>kv. fst kv @ '' = '' @
                        replace_all [CHR 0x0A] [CHR 0x0A, CHR 0x09] (snd kv) @ [CHR 0x0A]) items) @
     [CHR 0x0A]"

definition ini_text :: "config \<Rightarrow> string" where
  "ini_text c =
     (if defaults c = [] then [] else write_section default_section (defaults c)) @
     concat (map (\<lambda>so. write_section (fst so) (snd so)) (sections c))"

text \<open>
  The value that the configuration \<open>c\<close> stores for an option of a section, as it is
  written to the file.
\<close>

definition stored :: "config \<Rightarrow> string \<Rightarrow> string \<Rightarrow> string option" where
  "stored c sec opt =
     (case map_of (sections c) sec of None \<Rightarrow> None | Some opts \<Rightarrow> map_of opts opt)"

section \<open>The script\<close>

text \<open>The class \<^verbatim>\<open>ScriptInfo\<close>, and the fields it starts with.\<close>

record script_info =
  name_target :: "string option"
  name_original :: "string option"
  path_original :: "path option"
  path_target :: "path option"
  new_created :: bool

definition ScriptInfo :: script_info where
  "ScriptInfo = \<lparr>name_target = None, name_original = None, path_original = None,
                 path_target = None, new_created = False\<rparr>"

text \<open>
  What the script acts on: the file system, the working directory of the process as
  \<^verbatim>\<open>os.getcwd()\<close> returns it, its arguments (\<^verbatim>\<open>sys.argv\<close>) and what it has written to
  its two output streams. The working directory is taken to exist when the script
  starts. A
  function of the script takes the \<^verbatim>\<open>ScriptInfo\<close> object and the world and returns
  them as it leaves them, with its result or the exception it raised.
\<close>

record world =
  files :: node
  cwd :: path
  argv :: "string list"
  stdout :: string
  stderr :: string

type_synonym state = "script_info \<times> world"

text \<open>\<^verbatim>\<open>str(x)\<close> of an optional value inside a string or a path: \<^verbatim>\<open>None\<close> prints as its name.\<close>

definition str_opt :: "string option \<Rightarrow> string" where
  "str_opt x = (case x of None \<Rightarrow> ''None'' | Some s \<Rightarrow> s)"

definition path_opt :: "world \<Rightarrow> path option \<Rightarrow> path" where
  "path_opt w x = (case x of None \<Rightarrow> cwd w @ [''None''] | Some p \<Rightarrow> p)"

text \<open>\<^verbatim>\<open>ScriptInfo.config_path()\<close>: \<^verbatim>\<open>./setup.cfg\<close> in the working directory.\<close>

definition config_path :: "world \<Rightarrow> path" where
  "config_path w = cwd w @ [''setup.cfg'']"

definition no_name :: error where
  "no_name = ValueError ''new name must be passed with name=[name] param''"

definition load_target_name :: "state \<Rightarrow> (error + unit) \<times> state" where
  "load_target_name st =
     (case st of (script_info, w) \<Rightarrow>
        if length (argv w) < 2 then (Inl no_name, st)
        else
          (let script_info' = script_info\<lparr>name_target := Some (argv w ! 1)\<rparr>
           in if argv w ! 1 = [] then (Inl no_name, (script_info', w))
              else (Inr (), (script_info', w))))"

definition make_new_directory :: "env \<Rightarrow> state \<Rightarrow> (error + unit) \<times> state" where
  "make_new_directory E st =
     (case st of (script_info, w) \<Rightarrow>
        (let original = cwd w;
             target = path_div (parent original) (str_opt (name_target script_info) @ ''-py'');
             script_info' = script_info\<lparr>path_original := Some original,
                                         path_target := Some target\<rparr>
         in if path_exists (files w) target
            then (Inl (FileExistsError (''directory '' @ path_str target @ '' exists'')),
                  (script_info', w))
            else
              (case copytree E (files w) original target of
                 (Inl e, fs') \<Rightarrow> (Inl e, (script_info', w\<lparr>files := fs'\<rparr>))
               | (Inr u, fs') \<Rightarrow>
                   (Inr (), (script_info'\<lparr>new_created := True\<rparr>, w\<lparr>files := fs'\<rparr>)))))"

text \<open>\<^verbatim>\<open>os.chdir\<close>.\<close>

definition chdir :: "path \<Rightarrow> world \<Rightarrow> (error + unit) \<times> world" where
  "chdir p w =
     (case resolve (files w) [] p of
        Inl e \<Rightarrow> (Inl e, w)
      | Inr q \<Rightarrow>
          (case lookup (files w) q of
             None \<Rightarrow> (Inl (FileNotFoundError (path_str p)), w)
           | Some (File s) \<Rightarrow> (Inl NotADirectoryError, w)
           | Some (Dir kids) \<Rightarrow> (Inr (), w\<lparr>cwd := q\<rparr>)))"

definition edit_cfg :: "env \<Rightarrow> state \<Rightarrow> (error + string) \<times> state" where
  "edit_cfg E st =
     (case st of (script_info, w) \<Rightarrow>
        (case load_cfg E (files w) (config_path w) of
           Inl e \<Rightarrow> (Inl e, st)
         | Inr config \<Rightarrow>
        (case cfg_get E config ''metadata'' ''name'' of
           Inl e \<Rightarrow> (Inl e, st)
         | Inr old_name \<Rightarrow>
        (case name_target script_info of
           None \<Rightarrow> (Inl TypeError, st)
         | Some target_name \<Rightarrow>
        (case cfg_set config ''metadata'' ''name'' target_name of
           Inl e \<Rightarrow> (Inl e, st)
         | Inr c1 \<Rightarrow>
        (case cfg_set c1 ''coverage:run'' ''source'' target_name of
           Inl e \<Rightarrow> (Inl e, st)
         | Inr c2 \<Rightarrow>
        (case cfg_set c2 ''coverage:html'' ''title'' (''coverage report for '' @ target_name) of
           Inl e \<Rightarrow> (Inl e, st)
         | Inr c3 \<Rightarrow>
        (case cfg_set c3 ''build_sphinx'' ''project'' target_name of
           Inl e \<Rightarrow> (Inl e, st)
         | Inr c4 \<Rightarrow>
        (case write_text E (files w) (config_path w) (ini_text c4) of
           (Inl e, fs') \<Rightarrow> (Inl e, (script_info, w\<lparr>files := fs'\<rparr>))
         | (Inr u, fs') \<Rightarrow> (Inr old_name, (script_info, w\<lparr>files := fs'\<rparr>)))))))))))"

definition rewrite_sphinx_conf :: "env \<Rightarrow> string \<Rightarrow> world \<Rightarrow> (error + unit) \<times> world" where
  "rewrite_sphinx_conf E target_name w =
     (let template_path = cwd w @ [''zdocs'', ''source'', ''conf-template''];
          conf_path = cwd w @ [''zdocs'', ''source'', ''conf.py'']
      in case read_text E (files w) template_path of
           Inl e \<Rightarrow> (Inl e, w)
         | Inr template_text \<Rightarrow>
             (let conf_text = replace_all ''{lib-name-goes-here}'' target_name template_text
              in case write_text E (files w) conf_path conf_text of
                   (r, fs') \<Rightarrow> (r, w\<lparr>files := fs'\<rparr>)))"

text \<open>
  \<^verbatim>\<open>Path.with_name\<close> accepts a name that is one path component: not empty, not
  \<^verbatim>\<open>.\<close>, and without a separator.
\<close>

definition with_name :: "path \<Rightarrow> string \<Rightarrow> error + path" where
  "with_name p name =
     (if name = [] \<or> name = ''.'' \<or> CHR ''/'' \<in> set name
      then Inl (ValueError ''Invalid name'')
      else Inr (parent p @ [name]))"

definition collision_note :: "string \<Rightarrow> string" where
  "collision_note target_name =
     ''package '' @ [CHR 0x27] @ target_name @ [CHR 0x27] @
     '' already exists, your current package names'' @
     ''may not conform to illuscio'' @ [CHR 0x27] @ ''s standards. All packages names should '' @
     ''contain the root name of the library''"

definition no_packages :: error where
  "no_packages = FileNotFoundError ''no packages found in library''"

text \<open>
  The loop of \<^verbatim>\<open>rename_packages\<close> over the directories that \<^verbatim>\<open>glob\<close> listed. A
  directory is yielded if it holds \<^verbatim>\<open>__init__.py\<close> when its turn comes; \<open>n\<close> is the
  next value of \<^verbatim>\<open>count(1)\<close> and \<open>i\<close> the loop variable of that name, assigned at every
  yield, before the body of the loop runs.
\<close>

fun rename_loop ::
  "env \<Rightarrow> string \<Rightarrow> string \<Rightarrow> string list \<Rightarrow> nat \<Rightarrow> nat option \<Rightarrow> world
     \<Rightarrow> (error + nat option) \<times> world" where
  "rename_loop E old_name target_name [] n i w = (Inr i, w)"
| "rename_loop E old_name target_name (parent_name # dirs) n i w =
     (if lookup (files w) (cwd w @ [parent_name, ''__init__.py'']) = None
      then rename_loop E old_name target_name dirs n i w
      else if lower parent_name = ''zdevelop''
      then rename_loop E old_name target_name dirs (Suc n) (Some n) w
      else
        (case new_name_for E old_name parent_name target_name of
           Inl e \<Rightarrow> (Inl e, w)
         | Inr new_name \<Rightarrow>
        (case with_name (cwd w @ [parent_name]) new_name of
           Inl e \<Rightarrow> (Inl e, w)
         | Inr target_path \<Rightarrow>
        (case rename_path E (files w) (cwd w @ [parent_name]) target_path of
           Inl (FileExistsError m) \<Rightarrow>
             (Inl (FileExistsError m), w\<lparr>stderr := stderr w @ collision_note target_name\<rparr>)
         | Inl e \<Rightarrow> (Inl e, w)
         | Inr fs' \<Rightarrow>
             rename_loop E old_name target_name dirs (Suc n) (Some n) (w\<lparr>files := fs'\<rparr>)))))"

definition rename_packages :: "env \<Rightarrow> string \<Rightarrow> string \<Rightarrow> world \<Rightarrow> (error + unit) \<times> world" where
  "rename_packages E old_name target_name w =
     (case rename_loop E old_name target_name (glob_dirs E (files w) (cwd w)) 1 None w of
        (Inl e, w') \<Rightarrow> (Inl e, w')
      | (Inr i, w') \<Rightarrow> if i = None then (Inl no_packages, w') else (Inr (), w'))"

text \<open>
  A path string handed to the operating system by a process with the working directory
  \<open>d\<close>: the walk starts at the root for an absolute string and at \<open>d\<close> otherwise.
\<close>

definition os_path :: "path \<Rightarrow> string \<Rightarrow> path" where
  "os_path d s = (if absolute s then kernel_parts s else d @ kernel_parts s)"

text \<open>
  The removal of \<^verbatim>\<open><old_name>.egg-info\<close> in \<^verbatim>\<open>alter_new\<close>, with its two handlers:
  after \<^verbatim>\<open>PermissionError\<close> the mode is changed and the removal tried once more, and
  \<^verbatim>\<open>FileNotFoundError\<close> is passed over.
\<close>

definition remove_egg_info :: "env \<Rightarrow> string \<Rightarrow> world \<Rightarrow> (error + unit) \<times> world" where
  "remove_egg_info E old_name w =
     (let path_egg = os_path (cwd w) (old_name @ ''.egg-info'')
      in case rmtree E (files w) path_egg of
           (Inr u, fs') \<Rightarrow> (Inr (), w\<lparr>files := fs'\<rparr>)
         | (Inl PermissionError, fs') \<Rightarrow>
             (case chmod E fs' path_egg of
                Inl e \<Rightarrow> (Inl e, w\<lparr>files := fs'\<rparr>)
              | Inr u \<Rightarrow>
                  (case rmtree E fs' path_egg of (r, fs'') \<Rightarrow> (r, w\<lparr>files := fs''\<rparr>)))
         | (Inl (FileNotFoundError m), fs') \<Rightarrow> (Inr (), w\<lparr>files := fs'\<rparr>)
         | (Inl e, fs') \<Rightarrow> (Inl e, w\<lparr>files := fs'\<rparr>))"

definition alter_new :: "env \<Rightarrow> state \<Rightarrow> (error + unit) \<times> state" where
  "alter_new E st =
     (case edit_cfg E st of
        (Inl e, st1) \<Rightarrow> (Inl e, st1)
      | (Inr old_name, (script_info, w1)) \<Rightarrow>
     (case name_target script_info of
        None \<Rightarrow> (Inl AssertionError, (script_info, w1))
      | Some target_name \<Rightarrow>
     (case rewrite_sphinx_conf E target_name w1 of
        (Inl e, w2) \<Rightarrow> (Inl e, (script_info, w2))
      | (Inr u, w2) \<Rightarrow>
     (case remove_egg_info E old_name w2 of
        (Inl e, w3) \<Rightarrow> (Inl e, (script_info, w3))
      | (Inr u, w3) \<Rightarrow>
     (case rename_packages E old_name target_name w3 of
        (r, w4) \<Rightarrow> (r, (script_info, w4)))))))"

text \<open>The body of the \<^verbatim>\<open>try\<close> statement of \<^verbatim>\<open>main\<close>.\<close>

definition main_try :: "env \<Rightarrow> state \<Rightarrow> (error + unit) \<times> state" where
  "main_try E st =
     (case load_target_name st of
        (Inl e, st1) \<Rightarrow> (Inl e, st1)
      | (Inr u, st1) \<Rightarrow>
     (case make_new_directory E st1 of
        (Inl e, st2) \<Rightarrow> (Inl e, st2)
      | (Inr u, (script_info, w2)) \<Rightarrow>
     (case chdir (path_opt w2 (path_target script_info)) w2 of
        (Inl e, w3) \<Rightarrow> (Inl e, (script_info, w3))
      | (Inr u, w3) \<Rightarrow>
     (case alter_new E (script_info, w3) of
        (Inl e, st4) \<Rightarrow> (Inl e, st4)
      | (Inr u, (script_info', w4)) \<Rightarrow>
          (Inr (), (script_info',
                    w4\<lparr>stdout := stdout w4 @ path_str (path_opt w4 (path_target script_info'))\<rparr>))))))"

text \<open>
  \<^verbatim>\<open>main\<close>: the \<^verbatim>\<open>except\<close> clause removes the new directory if \<^verbatim>\<open>new_created\<close> is set
  and raises the error again; the \<^verbatim>\<open>else\<close> clause, which runs when the \<^verbatim>\<open>try\<close> body
  raised nothing and is not covered by the \<^verbatim>\<open>except\<close> clause, removes the old directory.
\<close>

definition main :: "env \<Rightarrow> world \<Rightarrow> (error + unit) \<times> state" where
  "main E w =
     (case main_try E (ScriptInfo, w) of
        (Inl this_error, (script_info, w1)) \<Rightarrow>
          if new_created script_info
          then (case rmtree E (files w1) (path_opt w1 (path_target script_info)) of
                  (Inl e, fs') \<Rightarrow> (Inl e, (script_info, w1\<lparr>files := fs'\<rparr>))
                | (Inr u, fs') \<Rightarrow> (Inl this_error, (script_info, w1\<lparr>files := fs'\<rparr>)))
          else (Inl this_error, (script_info, w1))
      | (Inr u, (script_info, w1)) \<Rightarrow>
          (case rmtree E (files w1) (path_opt w1 (path_original script_info)) of
             (r, fs') \<Rightarrow> (r, (script_info, w1\<lparr>files := fs'\<rparr>))))"

text \<open>The script run as a program: a failure of \<^verbatim>\<open>main\<close> writes \<^verbatim>\<open>0\<close> to standard output.\<close>

definition script :: "env \<Rightarrow> world \<Rightarrow> (error + unit) \<times> state" where
  "script E w =
     (case main E w of
        (Inl e, (script_info, w')) \<Rightarrow> (Inl e, (script_info, w'\<lparr>stdout := stdout w' @ ''0''\<rparr>))
      | (Inr u, st) \<Rightarrow> (Inr (), st))"



section \<open>Relations between worlds\<close>

text \<open>
  A step that works in the directory \<open>t\<close>: it leaves the working directory, the
  arguments and standard output alone and changes files at most below \<open>t\<close>.
\<close>

definition stays_within :: "path \<Rightarrow> world \<Rightarrow> world \<Rightarrow> bool" where
  "stays_within t w w' =
     (cwd w' = cwd w \<and> argv w' = argv w \<and> stdout w' = stdout w \<and>
      same_outside t (files w) (files w'))"

text \<open>A step that leaves the file at the path \<open>p\<close>, if there is one, as it is.\<close>

definition keeps_file :: "path \<Rightarrow> world \<Rightarrow> world \<Rightarrow> bool" where
  "keeps_file p w w' =
     (\<forall>x. lookup (files w) p = Some (File x) \<longrightarrow> lookup (files w') p = Some (File x))"

text \<open>The destination path that \<^verbatim>\<open>make_new_directory\<close> computes in the world \<open>w\<close>.\<close>

definition destination :: "world \<Rightarrow> path" where
  "destination w = path_div (parent (cwd w)) (argv w ! 1 @ ''-py'')"

text \<open>
  The state in which \<^verbatim>\<open>alter_new\<close> starts when \<^verbatim>\<open>main\<close> was started in the world \<open>w\<close>
  and the copy went through: the \<^verbatim>\<open>ScriptInfo\<close> object with its paths and its flag set,
  and the world with the project copied to the destination and the working directory
  there.
\<close>

definition info_created :: "world \<Rightarrow> script_info" where
  "info_created w =
     ScriptInfo\<lparr>name_target := Some (argv w ! 1), path_original := Some (cwd w),
                path_target := Some (destination w), new_created := True\<rparr>"

definition world_copied :: "world \<Rightarrow> world" where
  "world_copied w =
     w\<lparr>files := upd (destination w) (lookup (files w) (cwd w)) (files w),
       cwd := destination w\<rparr>"

text \<open>A name that is one path component: it holds no \<^verbatim>\<open>/\<close>.\<close>

definition plain_name :: "string \<Rightarrow> bool" where
  "plain_name name = (CHR ''/'' \<notin> set name)"

text \<open>A path as \<^verbatim>\<open>os.getcwd()\<close> returns it: every component is the name of an entry.\<close>

definition canonical :: "path \<Rightarrow> bool" where
  "canonical p = list_all valid_name p"

text \<open>
  The configuration that \<^verbatim>\<open>edit_cfg\<close> writes for the configuration \<open>c\<close> and the target
  name \<open>t\<close>: its four calls of \<^verbatim>\<open>set\<close>, one after the other.
\<close>

definition renamed_config :: "config \<Rightarrow> string \<Rightarrow> error + config" where
  "renamed_config c t =
     (case cfg_set c ''metadata'' ''name'' t of
        Inl e \<Rightarrow> Inl e
      | Inr c1 \<Rightarrow>
     (case cfg_set c1 ''coverage:run'' ''source'' t of
        Inl e \<Rightarrow> Inl e
      | Inr c2 \<Rightarrow>
     (case cfg_set c2 ''coverage:html'' ''title'' (''coverage report for '' @ t) of
        Inl e \<Rightarrow> Inl e
      | Inr c3 \<Rightarrow> cfg_set c3 ''build_sphinx'' ''project'' t)))"

text \<open>
  The library name that the file \<^verbatim>\<open>setup.cfg\<close> of the directory \<open>d\<close> configures, if
  the file is there and \<^verbatim>\<open>metadata.name\<close> can be read from it.
\<close>

definition configured_name :: "env \<Rightarrow> node \<Rightarrow> path \<Rightarrow> string option" where
  "configured_name E fs d =
     (case lookup fs (d @ [''setup.cfg'']) of
        Some (File s) \<Rightarrow>
          (case parse_ini E s of
             Inl e \<Rightarrow> None
           | Inr c \<Rightarrow>
               (case cfg_get E c ''metadata'' ''name'' of Inl e \<Rightarrow> None | Inr name \<Rightarrow> Some name))
      | _ \<Rightarrow> None)"

definition plain_configured :: "env \<Rightarrow> node \<Rightarrow> path \<Rightarrow> bool" where
  "plain_configured E fs d =
     (case configured_name E fs d of None \<Rightarrow> True | Some name \<Rightarrow> plain_name name)"

section \<open>Example projects\<close>

definition cfg_for :: "string \<Rightarrow> config" where
  "cfg_for name =
     \<lparr>defaults = [],
      sections =
        [(''metadata'', [(''name'', name)]),
         (''coverage:run'', [(''source'', name)]),
         (''coverage:html'', [(''title'', ''coverage report for '' @ name)]),
         (''build_sphinx'', [(''project'', name)])]\<rparr>"

definition cfg_widgets :: config where
  "cfg_widgets = cfg_for ''widgets''"

text \<open>A configuration without the section \<^verbatim>\<open>coverage:run\<close>.\<close>

definition cfg_no_coverage :: config where
  "cfg_no_coverage =
     \<lparr>defaults = [],
      sections =
        [(''metadata'', [(''name'', ''widgets'')]),
         (''coverage:html'', [(''title'', ''coverage report for widgets'')]),
         (''build_sphinx'', [(''project'', ''widgets'')])]\<rparr>"

text \<open>
  A configuration whose library name leads out of the directory it is read in, and the
  configuration of a library whose name starts with a space.
\<close>

definition cfg_escaping :: config where
  "cfg_escaping = cfg_for ''../widgets-py/widgets''"

definition cfg_spaced :: config where
  "cfg_spaced = cfg_for '' x''"

text \<open>
  What \<^verbatim>\<open>ConfigParser.read\<close> parses from the texts of the examples; it strips the
  white space around a value.
\<close>

definition parse_example :: "string \<Rightarrow> error + config" where
  "parse_example s =
     (if s = ini_text cfg_widgets then Inr cfg_widgets
      else if s = ini_text cfg_no_coverage then Inr cfg_no_coverage
      else if s = ini_text cfg_escaping then Inr cfg_escaping
      else if s = ini_text cfg_spaced then Inr (cfg_for ''x'')
      else Inl ParsingError)"

text \<open>
  An environment that refuses no call and reads the example configurations; a directory
  renamed onto one that is not empty fails with \<^verbatim>\<open>ENOTEMPTY\<close>, as on Linux.
\<close>

definition env_ok :: env where
  "env_ok =
     \<lparr>denied = (\<lambda>a p. False),
      write_fault = (\<lambda>p s. None),
      eexist_on_nonempty = False,
      parse_ini = parse_example,
      interpolate = (\<lambda>c sec v. Inr v),
      re_sub_special = (\<lambda>pat repl s. Inr s)\<rparr>"

definition docs :: node where
  "docs = Dir [(''source'', Dir [(''conf-template'', File ''project = {lib-name-goes-here}'')])]"

text \<open>The library \<^verbatim>\<open>widgets\<close> with its one package.\<close>

definition widgets_project :: node where
  "widgets_project =
     Dir [(''setup.cfg'', File (ini_text cfg_widgets)),
          (''zdocs'', docs),
          (''widgets'', Dir [(''__init__.py'', File [])])]"

definition make_world :: "node \<Rightarrow> string \<Rightarrow> world" where
  "make_world project name =
     \<lparr>files = Dir [(''home'', Dir [(''widgets-py'', project)])],
      cwd = [''home'', ''widgets-py''],
      argv = [''py_make_name.py'', name],
      stdout = [], stderr = []\<rparr>"

definition widgets_world :: world where
  "widgets_world = make_world widgets_project ''gadgets''"

text \<open>The same, with a directory \<^verbatim>\<open>/home/gadgets-py\<close> already there.\<close>

definition taken_world :: world where
  "taken_world =
     widgets_world\<lparr>files := Dir [(''home'', Dir [(''widgets-py'', widgets_project),
                                                  (''gadgets-py'', Dir [])])]\<rparr>"

text \<open>The library renamed to the name it has.\<close>

definition same_name_world :: world where
  "same_name_world = make_world widgets_project ''widgets''"

text \<open>The library renamed to a name that starts with a space.\<close>

definition spaced_world :: world where
  "spaced_world = make_world widgets_project '' x''"

text \<open>A project whose configuration file has no section \<^verbatim>\<open>coverage:run\<close>.\<close>

definition no_coverage_project :: node where
  "no_coverage_project =
     Dir [(''setup.cfg'', File (ini_text cfg_no_coverage)),
          (''zdocs'', docs),
          (''widgets'', Dir [(''__init__.py'', File [])])]"

definition no_coverage_world :: world where
  "no_coverage_world = make_world no_coverage_project ''gadgets''"

text \<open>The same project, to be renamed to \<^verbatim>\<open>a/b\<close>.\<close>

definition no_coverage_nested_world :: world where
  "no_coverage_nested_world = make_world no_coverage_project ''a/b''"

text \<open>A project whose only directory with \<^verbatim>\<open>__init__.py\<close> is \<^verbatim>\<open>zdevelop\<close>.\<close>

definition zdevelop_project :: node where
  "zdevelop_project =
     Dir [(''setup.cfg'', File (ini_text cfg_widgets)),
          (''zdocs'', docs),
          (''zdevelop'', Dir [(''__init__.py'', File [])])]"

definition zdevelop_world :: world where
  "zdevelop_world = make_world zdevelop_project ''gadgets''"

text \<open>
  The same project, to be renamed to \<^verbatim>\<open>widgets-py/sub\<close>: the destination
  \<^verbatim>\<open>/home/widgets-py/sub-py\<close> lies inside the project.
\<close>

definition inside_world :: world where
  "inside_world = make_world zdevelop_project ''widgets-py/sub''"

text \<open>
  A project without a package, with the directory \<^verbatim>\<open>widgets.egg-info\<close>, whose
  configured library name is \<^verbatim>\<open>../widgets-py/widgets\<close>.
\<close>

definition escaping_project :: node where
  "escaping_project =
     Dir [(''setup.cfg'', File (ini_text cfg_escaping)),
          (''zdocs'', docs),
          (''widgets.egg-info'', Dir [(''PKG-INFO'', File ''Name: widgets'')])]"

definition escaping_world :: world where
  "escaping_world = make_world escaping_project ''gadgets''"

text \<open>
  Environments with one fault each: a file of the project that cannot be read; a
  configuration file of the project of which only the first line, eleven characters,
  can be written; a file of the project that cannot be removed; the project directory
  itself, which cannot be removed; and the configuration file of the new directory,
  which cannot be removed.
\<close>

definition env_unreadable :: env where
  "env_unreadable =
     env_ok\<lparr>denied := (\<lambda>a p. a = OpRead \<and>
                 p = [''home'', ''widgets-py'', ''zdocs'', ''source'', ''conf-template''])\<rparr>"

definition env_unencodable :: env where
  "env_unencodable =
     env_ok\<lparr>write_fault := (\<lambda>p s. if p = [''home'', ''widgets-py'', ''setup.cfg'']
                                  then Some (UnicodeEncodeError, 11) else None)\<rparr>"

definition env_undeletable :: env where
  "env_undeletable =
     env_ok\<lparr>denied := (\<lambda>a p. a = OpRemove \<and>
                 p = [''home'', ''widgets-py'', ''zdocs'', ''source'', ''conf-template''])\<rparr>"

definition env_rooted :: env where
  "env_rooted =
     env_ok\<lparr>denied := (\<lambda>a p. a = OpRemove \<and> p = [''home'', ''widgets-py''])\<rparr>"

definition env_stuck :: env where
  "env_stuck =
     env_ok\<lparr>denied := (\<lambda>a p. a = OpRemove \<and> p = [''home'', ''gadgets-py'', ''setup.cfg''])\<rparr>"

text \<open>The \<^verbatim>\<open>ScriptInfo\<close> object once the target name \<^verbatim>\<open>gadgets\<close> is loaded.\<close>

definition info_gadgets :: script_info where
  "info_gadgets = ScriptInfo\<lparr>name_target := Some ''gadgets''\<rparr>"

section \<open>Properties of the file system\<close>

lemma map_of_delete_same: "map_of (AList.delete c kids) c = None"
  by (simp add: delete_conv')

lemma map_of_update_same: "map_of (AList.update c m kids) c = Some m"
  by (simp add: update_conv')

lemma map_of_update_other: "d \<noteq> c \<Longrightarrow> map_of (AList.update c m kids) d = map_of kids d"
  by (simp add: update_conv')

lemma is_dir_simps:
  "is_dir n [] = is_Dir n"
  "is_dir (File s) (c # p) = False"
  "is_dir (Dir kids) (c # p) =
     (valid_name c \<and> (case map_of kids c of None \<Rightarrow> False | Some k \<Rightarrow> is_dir k p))"
  by (auto simp: is_dir_def is_Dir_def split: option.splits node.splits)

text \<open>What was put at a path is found there, and below it what it holds.\<close>

lemma lookup_upd_below:
  "p \<noteq> [] \<Longrightarrow> is_dir fs (parent p) \<Longrightarrow> valid_name (last p) \<Longrightarrow>
   lookup (upd p x fs) (p @ q) = (case x of None \<Rightarrow> None | Some m \<Rightarrow> lookup m q)"
proof (induction p arbitrary: fs)
  case Nil
  then show ?case by simp
next
  case (Cons c p)
  show ?case
  proof (cases fs)
    case (File s)
    with Cons.prems show ?thesis by (simp add: is_dir_def parent_def split: if_splits)
  next
    case (Dir kids)
    show ?thesis
    proof (cases "p = []")
      case True
      with Dir Cons.prems show ?thesis
        by (simp add: map_of_delete_same map_of_update_same split: option.splits)
    next
      case False
      with Cons.prems Dir obtain k where k: "map_of kids c = Some k" "is_dir k (parent p)"
        and v: "valid_name c"
        by (auto simp: is_dir_def parent_def split: option.splits if_splits)
      from False Cons.prems have "valid_name (last p)" by simp
      from False k v Dir Cons.IH [OF False k(2) this] show ?thesis
        by (simp add: map_of_update_same)
    qed
  qed
qed

lemma lookup_upd_same:
  "p \<noteq> [] \<Longrightarrow> is_dir fs (parent p) \<Longrightarrow> valid_name (last p) \<Longrightarrow> lookup (upd p x fs) p = x"
  using lookup_upd_below [of p fs x "[]"] by (simp split: option.splits)

text \<open>A change at one path is not seen at a path beside it.\<close>

lemma lookup_upd_other:
  "\<not> prefix p q \<Longrightarrow> \<not> prefix q p \<Longrightarrow> lookup (upd p x fs) q = lookup fs q"
proof (induction p arbitrary: q fs)
  case Nil
  then show ?case by simp
next
  case (Cons c p)
  from Cons.prems obtain d q' where q: "q = d # q'" by (cases q) auto
  show ?case
  proof (cases fs)
    case (File s)
    then show ?thesis by simp
  next
    case (Dir kids)
    show ?thesis
    proof (cases "d = c")
      case True
      with Cons.prems q have np: "\<not> prefix p q'" "\<not> prefix q' p" by auto
      then have "p \<noteq> []" by auto
      with Dir q True Cons.IH [OF np] show ?thesis
        by (auto simp: map_of_update_same split: option.splits)
    next
      case False
      with Dir q show ?thesis
        by (auto simp: map_of_update_other split: option.splits)
    qed
  qed
qed

text \<open>Removing what is not there changes nothing.\<close>

lemma upd_absent: "lookup fs p = None \<Longrightarrow> upd p None fs = fs"
proof (induction p arbitrary: fs)
  case Nil
  then show ?case by simp
next
  case (Cons c p)
  show ?case
  proof (cases fs)
    case (File s)
    then show ?thesis by simp
  next
    case (Dir kids)
    show ?thesis
    proof (cases "map_of kids c")
      case None
      then have "c \<notin> fst ` set kids" by (simp add: map_of_eq_None_iff)
      with None Dir show ?thesis by simp
    next
      case (Some k)
      show ?thesis
      proof (cases "valid_name c")
        case False
        with Dir show ?thesis by simp
      next
        case True
        with Some Cons.prems Dir have absent: "lookup k p = None" by simp
        then have "p \<noteq> []" by auto
        with Some Dir Cons.IH [OF absent] show ?thesis
          by (simp add: update_triv)
      qed
    qed
  qed
qed

text \<open>Removing a directory undoes every change made at or below it.\<close>

lemma upd_cancel: "t \<noteq> [] \<Longrightarrow> upd t None (upd (t @ q) x fs) = upd t None fs"
proof (induction t arbitrary: fs)
  case Nil
  then show ?case by simp
next
  case (Cons c t)
  show ?case
  proof (cases fs)
    case (File s)
    then show ?thesis by simp
  next
    case (Dir kids)
    show ?thesis
    proof (cases "t = []")
      case True
      with Dir show ?thesis
        by (auto simp: delete_update_same delete_idem split: option.splits)
    next
      case False
      with Dir Cons.IH [OF False] show ?thesis
        by (auto simp: map_of_update_same split: option.splits)
    qed
  qed
qed

lemma is_dir_upd_below:
  "q \<noteq> [] \<Longrightarrow> is_dir (upd (t @ q) x fs) t = is_dir fs t"
proof (induction t arbitrary: fs)
  case Nil
  then show ?case by (cases fs; cases q) (auto simp: is_dir_simps is_Dir_def)
next
  case (Cons c t)
  show ?case
  proof (cases fs)
    case (File s)
    then show ?thesis by (simp add: is_dir_simps)
  next
    case (Dir kids)
    with Cons.prems Cons.IH [OF Cons.prems] show ?thesis
      by (auto simp: is_dir_simps map_of_update_same split: option.splits)
  qed
qed

text \<open>Of two changes at one path the later one stands.\<close>

lemma upd_upd_same: "p \<noteq> [] \<Longrightarrow> upd p x (upd p (Some m) fs) = upd p x fs"
proof (induction p arbitrary: fs)
  case Nil
  then show ?case by simp
next
  case (Cons c p)
  show ?case
  proof (cases fs)
    case (File s)
    then show ?thesis by simp
  next
    case (Dir kids)
    show ?thesis
    proof (cases "p = []")
      case True
      with Dir show ?thesis
        by (auto simp: delete_update_same split: option.splits)
    next
      case False
      with Dir Cons.IH [OF False] show ?thesis
        by (auto simp: map_of_update_same split: option.splits)
    qed
  qed
qed


text \<open>Only paths made of entry names lead anywhere.\<close>

lemma lookup_canonical: "lookup fs p = Some n \<Longrightarrow> canonical p"
proof (induction p arbitrary: fs)
  case Nil
  then show ?case by (simp add: canonical_def)
next
  case (Cons c p)
  then show ?case
    by (cases fs) (auto simp: canonical_def split: if_splits option.splits)
qed

lemma is_dir_canonical: "is_dir fs p \<Longrightarrow> canonical p"
  by (auto simp: is_dir_def dest: lookup_canonical split: option.splits)

lemma canonical_append: "canonical (p @ q) = (canonical p \<and> canonical q)"
  by (simp add: canonical_def)

lemma canonical_butlast: "canonical p \<Longrightarrow> canonical (butlast p)"
  by (auto simp: canonical_def list_all_iff dest: in_set_butlastD)

lemma lookup_append:
  "lookup fs (p @ q) = (case lookup fs p of None \<Rightarrow> None | Some n \<Rightarrow> lookup n q)"
proof (induction p arbitrary: fs)
  case Nil
  then show ?case by simp
next
  case (Cons c p)
  then show ?case by (cases fs) (auto split: option.splits)
qed

lemma lookup_parent_is_dir:
  assumes "lookup fs p = Some n" and "p \<noteq> []"
  shows "is_dir fs (parent p)"
proof -
  from assms(2) obtain d c where p: "p = d @ [c]" by (cases p rule: rev_cases) auto
  with assms(1) obtain m where m: "lookup fs d = Some m" "lookup m [c] = Some n"
    by (auto simp: lookup_append split: option.splits)
  then obtain kids where "m = Dir kids" by (cases m) auto
  with m p show ?thesis by (simp add: is_dir_def parent_def)
qed

lemma is_dir_prefix: "is_dir fs (p @ q) \<Longrightarrow> is_dir fs p"
proof (induction q rule: rev_induct)
  case Nil
  then show ?case by simp
next
  case (snoc c q)
  from snoc.prems obtain n where "lookup fs ((p @ q) @ [c]) = Some n"
    by (auto simp: is_dir_def split: option.splits)
  from lookup_parent_is_dir [OF this] have "is_dir fs (p @ q)"
    by (simp add: parent_def butlast_append)
  then show ?case by (rule snoc.IH)
qed

text \<open>The walk of the kernel.\<close>

lemma resolve_lexical: "resolve fs acc p = Inr q \<Longrightarrow> q = lexical acc p"
  by (induction fs acc p rule: resolve.induct)
     (auto split: option.splits node.splits if_splits)

lemma resolve_error:
  "resolve fs acc p = Inl e \<Longrightarrow> (\<exists>m. e = FileNotFoundError m) \<or> e = NotADirectoryError"
  by (induction fs acc p rule: resolve.induct)
     (auto split: option.splits node.splits if_splits)

lemma valid_name_dots: "valid_name c \<Longrightarrow> c \<noteq> ''.'' \<and> c \<noteq> ''..''"
  by (simp add: valid_name_def)

lemma lexical_canonical: "canonical p \<Longrightarrow> lexical acc p = acc @ p"
  by (induction p arbitrary: acc) (auto simp: canonical_def valid_name_def)

lemma resolve_canonical:
  "canonical p \<Longrightarrow> p \<noteq> [] \<Longrightarrow> is_dir fs (acc @ butlast p) \<Longrightarrow> resolve fs acc p = Inr (acc @ p)"
proof (induction p arbitrary: acc)
  case Nil
  then show ?case by simp
next
  case (Cons c p)
  from Cons.prems(3) have "is_dir fs acc" by (rule is_dir_prefix)
  then obtain kids where acc: "lookup fs acc = Some (Dir kids)"
    by (auto simp: is_dir_def split: option.splits node.splits)
  from Cons.prems(1) have c: "c \<noteq> ''.''" "c \<noteq> ''..''" and p: "canonical p"
    by (auto simp: canonical_def valid_name_def)
  show ?case
  proof (cases "p = []")
    case True
    with acc c show ?thesis by simp
  next
    case False
    with Cons.prems(3) have "is_dir fs ((acc @ [c]) @ butlast p)" by simp
    from Cons.IH [OF p False this] acc c show ?thesis by simp
  qed
qed

lemma resolve_is_dir: "is_dir fs p \<Longrightarrow> resolve fs [] p = Inr p"
proof (cases "p = []")
  case True
  then show ?thesis by simp
next
  case False
  assume d: "is_dir fs p"
  from False have "p = butlast p @ [last p]" by simp
  with d have "is_dir fs (butlast p @ [last p])" by simp
  then have "is_dir fs ([] @ butlast p)" by (simp add: is_dir_prefix)
  from resolve_canonical [OF is_dir_canonical [OF d] False this] show ?thesis by simp
qed

lemma resolve_canonical_cases:
  assumes "canonical p"
  shows "(\<exists>e. resolve fs [] p = Inl e) \<or>
         (resolve fs [] p = Inr p \<and> (p \<noteq> [] \<longrightarrow> is_dir fs (parent p)))"
proof (cases "p \<noteq> [] \<longrightarrow> is_dir fs (parent p)")
  case True
  show ?thesis
  proof (cases "p = []")
    case True
    then show ?thesis by simp
  next
    case False
    with True have "is_dir fs ([] @ butlast p)" by (simp add: parent_def)
    from resolve_canonical [OF assms False this] True show ?thesis by simp
  qed
next
  case False
  then have ne: "p \<noteq> []" and nd: "\<not> is_dir fs (parent p)" by auto
  have "\<forall>q. resolve fs [] p \<noteq> Inr q"
  proof (intro allI notI)
    fix q
    assume r: "resolve fs [] p = Inr q"
    have g: "resolve fs acc p' = Inr q' \<Longrightarrow> p' \<noteq> [] \<Longrightarrow> canonical p' \<Longrightarrow> is_dir fs (acc @ butlast p')"
      for acc p' q'
    proof (induction p' arbitrary: acc)
      case Nil
      then show ?case by simp
    next
      case (Cons c p')
      from Cons.prems(3) have c: "c \<noteq> ''.''" "c \<noteq> ''..''" and p: "canonical p'"
        by (auto simp: canonical_def valid_name_def)
      from Cons.prems(1) c obtain kids where acc: "lookup fs acc = Some (Dir kids)"
        and r: "resolve fs (acc @ [c]) p' = Inr q'"
        by (auto split: option.splits node.splits)
      show ?case
      proof (cases "p' = []")
        case True
        with acc show ?thesis by (simp add: is_dir_def)
      next
        case False
        from Cons.IH [OF r False p] False show ?thesis by simp
      qed
    qed
    from g [OF r ne assms] nd show False by (simp add: parent_def)
  qed
  then show ?thesis by (cases "resolve fs [] p") auto
qed

lemma path_exists_lookup: "lookup fs p \<noteq> None \<Longrightarrow> path_exists fs p"
proof -
  assume a: "lookup fs p \<noteq> None"
  then obtain n where n: "lookup fs p = Some n" by auto
  have "resolve fs [] p = Inr p"
  proof (cases "p = []")
    case True
    then show ?thesis by simp
  next
    case False
    from lookup_parent_is_dir [OF n False] have "is_dir fs ([] @ butlast p)"
      by (simp add: parent_def)
    from resolve_canonical [OF lookup_canonical [OF n] False this] show ?thesis by simp
  qed
  with a show ?thesis by (simp add: path_exists_def)
qed

lemma path_exists_canonical:
  assumes "canonical p"
  shows "path_exists fs p = (lookup fs p \<noteq> None)"
proof (cases "lookup fs p = None")
  case True
  with resolve_canonical_cases [OF assms, of fs] show ?thesis
    by (auto simp: path_exists_def)
next
  case False
  with path_exists_lookup [of fs p] show ?thesis by simp
qed

text \<open>The components of a name without a separator.\<close>

lemma split_on_plain: "d \<notin> set s \<Longrightarrow> split_on d s = [s]"
  by (induction s) auto

lemma valid_name_py: "valid_name (name @ ''-py'') = plain_name name"
  by (auto simp: valid_name_def plain_name_def append_eq_Cons_conv)

lemma path_div_plain:
  assumes "plain_name name"
  shows "path_div base (name @ ''-py'') = base @ [name @ ''-py'']"
proof -
  from assms have "CHR ''/'' \<notin> set (name @ ''-py'')" by (simp add: plain_name_def)
  then have "split_on CHR ''/'' (name @ ''-py'') = [name @ ''-py'']" by (rule split_on_plain)
  then have k: "parts (name @ ''-py'') = [name @ ''-py'']"
    by (auto simp: parts_def kernel_parts_def append_eq_Cons_conv)
  from assms have "\<not> absolute (name @ ''-py'')"
    by (cases name) (auto simp: absolute_def plain_name_def)
  with k show ?thesis by (simp add: path_div_def)
qed

section \<open>The name of a renamed package, checked\<close>

text \<open>
  C1. The name-substitution rule is meant to give the package \<^verbatim>\<open>widgets_cli\<close> of the
  library \<^verbatim>\<open>widgets\<close> the name \<^verbatim>\<open>gadgets_cli\<close> when the library becomes \<^verbatim>\<open>gadgets\<close>:
  the old library name inside the package name replaced by the new one. The script
  searches the new library name for the package name instead and finds nothing to
  replace, so the package gets the bare name \<^verbatim>\<open>gadgets\<close>.
\<close>

theorem substitution_loses_suffix:
  "new_name_for E ''widgets'' ''widgets_cli'' ''gadgets'' = Inr ''gadgets'' \<and>
   new_name_for E ''widgets'' ''widgets_cli'' ''gadgets'' \<noteq> Inr ''gadgets_cli''"
  by (simp add: new_name_for_def re_sub_def metachars_def lower_def lower_char_def
      sub_literal.simps)

section \<open>The destination is already there\<close>

lemma main_destination_exists:
  assumes "2 \<le> length (argv w)" and "argv w ! 1 \<noteq> []"
    and "path_exists (files w) (destination w)"
  shows "main E w =
     (Inl (FileExistsError (''directory '' @ path_str (destination w) @ '' exists'')),
      (ScriptInfo\<lparr>name_target := Some (argv w ! 1), path_original := Some (cwd w),
                  path_target := Some (destination w)\<rparr>, w))"
  using assms
  by (simp add: main_def main_try_def load_target_name_def make_new_directory_def
      ScriptInfo_def str_opt_def Let_def destination_def)

text \<open>
  For a target name without \<^verbatim>\<open>/\<close> the destination is the entry \<^verbatim>\<open><target>-py\<close>
  beside the project root.
\<close>

lemma destination_plain:
  "plain_name (argv w ! 1) \<Longrightarrow> destination w = parent (cwd w) @ [argv w ! 1 @ ''-py'']"
  by (simp add: destination_def path_div_plain)

lemma destination_entry:
  assumes "lookup (files w) (parent (cwd w) @ [argv w ! 1 @ ''-py'']) \<noteq> None"
  shows "destination w = parent (cwd w) @ [argv w ! 1 @ ''-py'']"
    and "path_exists (files w) (destination w)"
proof -
  from assms obtain n
    where "lookup (files w) (parent (cwd w) @ [argv w ! 1 @ ''-py'']) = Some n" by auto
  from lookup_canonical [OF this] have "plain_name (argv w ! 1)"
    by (simp add: canonical_append canonical_def valid_name_py)
  then show d: "destination w = parent (cwd w) @ [argv w ! 1 @ ''-py'']"
    by (rule destination_plain)
  from assms show "path_exists (files w) (destination w)"
    unfolding d by (rule path_exists_lookup)
qed

lemma main_destination_entry_exists:
  assumes "2 \<le> length (argv w)" and "argv w ! 1 \<noteq> []"
    and "lookup (files w) (parent (cwd w) @ [argv w ! 1 @ ''-py'']) \<noteq> None"
  shows "\<exists>script_info m.
           main E w = (Inl (FileExistsError m), (script_info, w)) \<and>
           \<not> new_created script_info \<and>
           path_target script_info = Some (parent (cwd w) @ [argv w ! 1 @ ''-py''])"
  using main_destination_exists [OF assms(1,2) destination_entry(2) [OF assms(3)], of E]
    destination_entry(1) [OF assms(3)]
  by (simp add: ScriptInfo_def)

text \<open>
  C8. In every run in which the destination path that \<^verbatim>\<open>make_new_directory\<close> computes
  from the working directory and the target name already exists, \<^verbatim>\<open>main\<close> fails with
  \<^verbatim>\<open>FileExistsError\<close> and leaves the world as it found it: nothing was copied, created
  or deleted, and \<^verbatim>\<open>new_created\<close> is not set, so the handler removes nothing.
\<close>

theorem destination_exists_fails_untouched:
  assumes "2 \<le> length (argv w)" and "argv w ! 1 \<noteq> []"
    and "path_exists (files w) (destination w)"
  shows "\<exists>script_info m.
           main E w = (Inl (FileExistsError m), (script_info, w)) \<and>
           \<not> new_created script_info \<and>
           path_target script_info = Some (destination w)"
  using main_destination_exists [OF assms, of E] by (simp add: ScriptInfo_def)

theorem destination_exists_witness:
  "2 \<le> length (argv taken_world) \<and> argv taken_world ! 1 \<noteq> [] \<and>
   path_exists (files taken_world) (destination taken_world) \<and>
   (\<exists>script_info m.
      main env_ok taken_world = (Inl (FileExistsError m), (script_info, taken_world)) \<and>
      \<not> new_created script_info \<and>
      path_target script_info = Some [''home'', ''gadgets-py''])"
proof -
  have h1: "2 \<le> length (argv taken_world)" by code_simp
  have h2: "argv taken_world ! 1 \<noteq> []" by code_simp
  have h3: "path_exists (files taken_world) (destination taken_world)" by code_simp
  have t: "destination taken_world = [''home'', ''gadgets-py'']" by code_simp
  from destination_exists_fails_untouched [OF h1 h2 h3, of env_ok] h1 h2 h3 t
  show ?thesis by simp
qed

text \<open>
  C10. When the project root is already named \<^verbatim>\<open>N-py\<close> and the target name is \<open>N\<close>,
  the destination path is the path of the project root itself, which exists: the run
  fails with \<^verbatim>\<open>FileExistsError\<close> before anything is copied, and the world is unchanged.
  There is no special case for a rename to the same name.
\<close>

theorem same_name_fails:
  assumes "2 \<le> length (argv w)" and "argv w ! 1 = N" and "N \<noteq> []"
    and "cwd w = d @ [N @ ''-py'']" and "lookup (files w) (cwd w) \<noteq> None"
  shows "\<exists>script_info m.
           main E w = (Inl (FileExistsError m), (script_info, w)) \<and>
           path_target script_info = Some (cwd w) \<and>
           path_original script_info = Some (cwd w) \<and>
           \<not> new_created script_info"
proof -
  from assms have t: "parent (cwd w) @ [argv w ! 1 @ ''-py''] = cwd w"
    by (simp add: parent_def)
  with assms have e: "lookup (files w) (parent (cwd w) @ [argv w ! 1 @ ''-py'']) \<noteq> None"
    by simp
  from destination_entry [OF e] t
  have "destination w = cwd w" and "path_exists (files w) (destination w)" by simp_all
  with main_destination_exists [OF assms(1) _ this(2), of E] assms show ?thesis
    by (simp add: ScriptInfo_def)
qed

theorem same_name_witness:
  "2 \<le> length (argv same_name_world) \<and> argv same_name_world ! 1 = ''widgets'' \<and>
   ''widgets'' \<noteq> [] \<and> cwd same_name_world = [''home''] @ [''widgets'' @ ''-py''] \<and>
   lookup (files same_name_world) (cwd same_name_world) \<noteq> None \<and>
   (\<exists>script_info m.
      main env_ok same_name_world = (Inl (FileExistsError m), (script_info, same_name_world)) \<and>
      path_target script_info = Some (cwd same_name_world) \<and>
      path_original script_info = Some (cwd same_name_world) \<and>
      \<not> new_created script_info)"
proof -
  have h1: "2 \<le> length (argv same_name_world)" by code_simp
  have h2: "argv same_name_world ! 1 = ''widgets''" by code_simp
  have h3: "''widgets'' \<noteq> []" by simp
  have h4: "cwd same_name_world = [''home''] @ [''widgets'' @ ''-py'']" by code_simp
  have h5: "lookup (files same_name_world) (cwd same_name_world) \<noteq> None" by code_simp
  from same_name_fails [OF h1 h2 h3 h4 h5, of env_ok] h1 h2 h3 h4 h5
  show ?thesis by blast
qed

section \<open>The configuration store, checked\<close>

lemma write_text_cases:
  assumes "write_text E fs p s = (r, fs')"
  shows "(\<exists>e. r = Inl e \<and> fs' = fs) \<or>
         (\<exists>e k. write_fault E p s = Some (e, k) \<and> r = Inl e \<and>
            fs' = upd p (Some (File (take k s))) fs) \<or>
         (r = Inr () \<and> fs' = upd p (Some (File s)) fs \<and>
          p \<noteq> [] \<and> is_dir fs (parent p) \<and> valid_name (last p))"
proof (cases "open_w E fs p")
  case (Inl e)
  with assms show ?thesis by (auto simp: write_text_def)
next
  case (Inr fs1)
  then have fs1: "fs1 = upd p (Some (File [])) fs" and "p \<noteq> []"
    and "is_dir fs (parent p)" and "valid_name (last p)"
    by (auto simp: open_w_def is_dir_def split: option.splits node.splits if_splits)
  with Inr assms show ?thesis
    by (auto simp: write_text_def upd_upd_same split: if_splits option.splits)
qed

lemma cfg_set_absent:
  "map_of (sections c) sec = None \<Longrightarrow> sec \<noteq> [] \<Longrightarrow> sec \<noteq> default_section \<Longrightarrow>
   cfg_set c sec opt v =
     Inl (if v \<noteq> [] \<and> bad_percent v then ValueError ''invalid interpolation syntax''
          else NoSectionError)"
  by (simp add: cfg_set_def)

lemma cfg_set_present:
  "map_of (sections c) sec = Some opts \<Longrightarrow> sec \<noteq> [] \<Longrightarrow> sec \<noteq> default_section \<Longrightarrow>
   v = [] \<or> \<not> bad_percent v \<Longrightarrow>
   cfg_set c sec opt v =
     Inr (c\<lparr>sections := AList.update sec (AList.update (lower opt) v opts) (sections c)\<rparr>)"
  by (auto simp: cfg_set_def)

lemma cfg_set_defaults:
  "sec = [] \<or> sec = default_section \<Longrightarrow> v = [] \<or> \<not> bad_percent v \<Longrightarrow>
   cfg_set c sec opt v = Inr (c\<lparr>defaults := AList.update (lower opt) v (defaults c)\<rparr>)"
  by (auto simp: cfg_set_def)

lemma cfg_set_other:
  "cfg_set c sec opt v = Inr c' \<Longrightarrow> s \<noteq> sec \<Longrightarrow>
   map_of (sections c') s = map_of (sections c) s"
  by (auto simp: cfg_set_def map_of_update_other split: if_splits option.splits)

lemma cfg_set_needs:
  "cfg_set c sec opt v = Inr c' \<Longrightarrow> sec \<noteq> [] \<Longrightarrow> sec \<noteq> default_section \<Longrightarrow>
   map_of (sections c) sec \<noteq> None"
  by (auto simp: cfg_set_def split: if_splits option.splits)

lemma lower_literals:
  "lower ''name'' = ''name''" "lower ''source'' = ''source''"
  "lower ''title'' = ''title''" "lower ''project'' = ''project''"
  by (simp_all add: lower_def lower_char_def)

lemma section_literals:
  "''metadata'' \<noteq> default_section" "''coverage:run'' \<noteq> default_section"
  "''coverage:html'' \<noteq> default_section" "''build_sphinx'' \<noteq> default_section"
  by (simp_all add: default_section_def)

text \<open>
  The four calls of \<^verbatim>\<open>set\<close> go through only on a configuration that has the three
  sections besides \<^verbatim>\<open>metadata\<close>.
\<close>

lemma renamed_config_needs:
  assumes "renamed_config c t = Inr c'"
  shows "map_of (sections c) ''metadata'' \<noteq> None \<and> map_of (sections c) ''coverage:run'' \<noteq> None \<and>
         map_of (sections c) ''coverage:html'' \<noteq> None \<and>
         map_of (sections c) ''build_sphinx'' \<noteq> None"
proof -
  from assms obtain c1 c2 c3
    where c1: "cfg_set c ''metadata'' ''name'' t = Inr c1"
      and c2: "cfg_set c1 ''coverage:run'' ''source'' t = Inr c2"
      and c3: "cfg_set c2 ''coverage:html'' ''title'' (''coverage report for '' @ t) = Inr c3"
      and c4: "cfg_set c3 ''build_sphinx'' ''project'' t = Inr c'"
    by (auto simp: renamed_config_def split: sum.splits)
  from cfg_set_needs [OF c1] have "map_of (sections c) ''metadata'' \<noteq> None"
    by (simp add: section_literals)
  moreover from cfg_set_needs [OF c2] cfg_set_other [OF c1, of "''coverage:run''"]
  have "map_of (sections c) ''coverage:run'' \<noteq> None"
    by (simp add: section_literals)
  moreover from cfg_set_needs [OF c3] cfg_set_other [OF c1, of "''coverage:html''"]
    cfg_set_other [OF c2, of "''coverage:html''"]
  have "map_of (sections c) ''coverage:html'' \<noteq> None"
    by (simp add: section_literals)
  moreover from cfg_set_needs [OF c4] cfg_set_other [OF c1, of "''build_sphinx''"]
    cfg_set_other [OF c2, of "''build_sphinx''"] cfg_set_other [OF c3, of "''build_sphinx''"]
  have "map_of (sections c) ''build_sphinx'' \<noteq> None"
    by (simp add: section_literals)
  ultimately show ?thesis by simp
qed

text \<open>
  What \<^verbatim>\<open>edit_cfg\<close> returns: an early error with nothing changed, or the outcome of its
  one write, of the text of the configuration that its four calls of \<^verbatim>\<open>set\<close> made.
\<close>

lemma edit_cfg_cases:
  assumes "edit_cfg E (script_info, w) = (r, st')"
  shows "(\<exists>e. r = Inl e \<and> st' = (script_info, w)) \<or>
         (\<exists>c c' t old_name u fs'.
            load_cfg E (files w) (config_path w) = Inr c \<and>
            cfg_get E c ''metadata'' ''name'' = Inr old_name \<and>
            name_target script_info = Some t \<and> renamed_config c t = Inr c' \<and>
            write_text E (files w) (config_path w) (ini_text c') = (u, fs') \<and>
            st' = (script_info, w\<lparr>files := fs'\<rparr>) \<and>
            r = (case u of Inl e \<Rightarrow> Inl e | Inr x \<Rightarrow> Inr old_name))"
proof (cases "load_cfg E (files w) (config_path w)")
  case (Inl e)
  with assms have "r = Inl e \<and> st' = (script_info, w)" by (simp add: edit_cfg_def)
  then show ?thesis by blast
next
  case c: (Inr c)
  show ?thesis
  proof (cases "cfg_get E c ''metadata'' ''name''")
    case (Inl e)
    with assms c have "r = Inl e \<and> st' = (script_info, w)" by (simp add: edit_cfg_def)
    then show ?thesis by blast
  next
    case old: (Inr old_name)
    show ?thesis
    proof (cases "name_target script_info")
      case None
      with assms c old have "r = Inl TypeError \<and> st' = (script_info, w)"
        by (simp add: edit_cfg_def)
      then show ?thesis by blast
    next
      case t: (Some t)
      show ?thesis
      proof (cases "renamed_config c t")
        case (Inl e)
        with assms c old t have "r = Inl e \<and> st' = (script_info, w)"
          by (auto simp: edit_cfg_def renamed_config_def split: sum.splits)
        then show ?thesis by blast
      next
        case c': (Inr c')
        obtain u fs' where wt: "write_text E (files w) (config_path w) (ini_text c') = (u, fs')"
          by (cases "write_text E (files w) (config_path w) (ini_text c')")
        with assms c old t c'
        have "st' = (script_info, w\<lparr>files := fs'\<rparr>)"
          and "r = (case u of Inl e \<Rightarrow> Inl e | Inr x \<Rightarrow> Inr old_name)"
          by (auto simp: edit_cfg_def renamed_config_def split: sum.splits)
        with c old t c' wt show ?thesis by blast
      qed
    qed
  qed
qed

text \<open>
  \<^verbatim>\<open>edit_cfg\<close> raises, and writes nothing, when the configuration lacks one of the four
  sections it sets an option in.
\<close>

lemma edit_cfg_needs_sections:
  assumes "load_cfg E (files w) (config_path w) = Inr c"
    and "map_of (sections c) ''metadata'' = None \<or> map_of (sections c) ''coverage:run'' = None \<or>
         map_of (sections c) ''coverage:html'' = None \<or>
         map_of (sections c) ''build_sphinx'' = None"
  shows "\<exists>e. edit_cfg E (script_info, w) = (Inl e, (script_info, w))"
proof -
  obtain r st' where e: "edit_cfg E (script_info, w) = (r, st')"
    by (cases "edit_cfg E (script_info, w)")
  from assms(2) have no: "renamed_config c t \<noteq> Inr c'" for t c'
    using renamed_config_needs [of c t c'] by blast
  from edit_cfg_cases [OF e] assms(1) no
  have "\<exists>e. r = Inl e \<and> st' = (script_info, w)" by auto
  with e show ?thesis by auto
qed

text \<open>
  C5, as the claim has it, fails: \<^verbatim>\<open>set\<close> on a section that is absent raises
  \<^verbatim>\<open>NoSectionError\<close> and creates nothing, and \<^verbatim>\<open>edit_cfg\<close> fails on a configuration file
  without the section \<^verbatim>\<open>coverage:run\<close>, leaving the file as it was.
\<close>

theorem set_creates_no_section:
  "cfg_set cfg_no_coverage ''coverage:run'' ''source'' ''gadgets'' = Inl NoSectionError \<and>
   edit_cfg env_ok (info_gadgets, no_coverage_world)
     = (Inl NoSectionError, (info_gadgets, no_coverage_world))"
  by code_simp

text \<open>
  C5, amended. \<^verbatim>\<open>set\<close> stores an option under its name in lower case, and for a value
  that the interpolation check accepts it does one of three things. For a section other
  than the defaults that is absent it raises \<^verbatim>\<open>NoSectionError\<close>. For such a section that
  is present it overwrites the option or adds it, and changes no other option, no other
  section and no default. For the section name \<^verbatim>\<open>DEFAULT\<close> and for the empty section
  name it writes the option among the defaults and makes no section. So
  \<^verbatim>\<open>edit_cfg\<close> raises, and leaves the configuration file as it was, whenever the
  configuration lacks one of the sections \<^verbatim>\<open>metadata\<close>, \<^verbatim>\<open>coverage:run\<close>,
  \<^verbatim>\<open>coverage:html\<close> and \<^verbatim>\<open>build_sphinx\<close>.
\<close>

theorem set_needs_section:
  "(map_of (sections c) sec = None \<and> sec \<noteq> [] \<and> sec \<noteq> ''DEFAULT'' \<and>
    (v = [] \<or> \<not> bad_percent v)
      \<longrightarrow> cfg_set c sec opt v = Inl NoSectionError) \<and>
   (map_of (sections c') sec' = Some opts \<and> sec' \<noteq> [] \<and> sec' \<noteq> ''DEFAULT'' \<and>
    (v' = [] \<or> \<not> bad_percent v')
      \<longrightarrow> (\<exists>c'' opts'. cfg_set c' sec' opt' v' = Inr c'' \<and>
             map_of (sections c'') sec' = Some opts' \<and>
             map_of opts' (lower opt') = Some v' \<and>
             (\<forall>k. k \<noteq> lower opt' \<longrightarrow> map_of opts' k = map_of opts k) \<and>
             (\<forall>s. s \<noteq> sec' \<longrightarrow> map_of (sections c'') s = map_of (sections c') s) \<and>
             defaults c'' = defaults c')) \<and>
   ((sec0 = [] \<or> sec0 = ''DEFAULT'') \<and> (v0 = [] \<or> \<not> bad_percent v0)
      \<longrightarrow> cfg_set d sec0 opt0 v0
            = Inr (d\<lparr>defaults := AList.update (lower opt0) v0 (defaults d)\<rparr>)) \<and>
   (load_cfg E (files w) (config_path w) = Inr c0 \<and>
    (map_of (sections c0) ''metadata'' = None \<or> map_of (sections c0) ''coverage:run'' = None \<or>
     map_of (sections c0) ''coverage:html'' = None \<or>
     map_of (sections c0) ''build_sphinx'' = None)
      \<longrightarrow> (\<exists>e. edit_cfg E (script_info, w) = (Inl e, (script_info, w))))"
proof (intro conjI impI)
  assume "map_of (sections c) sec = None \<and> sec \<noteq> [] \<and> sec \<noteq> ''DEFAULT'' \<and>
    (v = [] \<or> \<not> bad_percent v)"
  then show "cfg_set c sec opt v = Inl NoSectionError"
    by (auto simp: cfg_set_absent default_section_def)
next
  assume a: "map_of (sections c') sec' = Some opts \<and> sec' \<noteq> [] \<and> sec' \<noteq> ''DEFAULT'' \<and>
    (v' = [] \<or> \<not> bad_percent v')"
  then have "cfg_set c' sec' opt' v' =
     Inr (c'\<lparr>sections := AList.update sec' (AList.update (lower opt') v' opts) (sections c')\<rparr>)"
    by (simp add: cfg_set_present default_section_def)
  then show "\<exists>c'' opts'. cfg_set c' sec' opt' v' = Inr c'' \<and>
             map_of (sections c'') sec' = Some opts' \<and>
             map_of opts' (lower opt') = Some v' \<and>
             (\<forall>k. k \<noteq> lower opt' \<longrightarrow> map_of opts' k = map_of opts k) \<and>
             (\<forall>s. s \<noteq> sec' \<longrightarrow> map_of (sections c'') s = map_of (sections c') s) \<and>
             defaults c'' = defaults c'"
    by (simp add: map_of_update_same map_of_update_other)
next
  assume "(sec0 = [] \<or> sec0 = ''DEFAULT'') \<and> (v0 = [] \<or> \<not> bad_percent v0)"
  then show "cfg_set d sec0 opt0 v0
            = Inr (d\<lparr>defaults := AList.update (lower opt0) v0 (defaults d)\<rparr>)"
    by (simp add: cfg_set_defaults default_section_def)
next
  assume "load_cfg E (files w) (config_path w) = Inr c0 \<and>
    (map_of (sections c0) ''metadata'' = None \<or> map_of (sections c0) ''coverage:run'' = None \<or>
     map_of (sections c0) ''coverage:html'' = None \<or>
     map_of (sections c0) ''build_sphinx'' = None)"
  then show "\<exists>e. edit_cfg E (script_info, w) = (Inl e, (script_info, w))"
    using edit_cfg_needs_sections by blast
qed

theorem set_needs_section_witness:
  "(map_of (sections cfg_no_coverage) ''coverage:run'' = None \<and> \<not> bad_percent ''gadgets'') \<and>
   cfg_set cfg_no_coverage ''coverage:run'' ''source'' ''gadgets'' = Inl NoSectionError \<and>
   map_of (sections cfg_widgets) ''metadata'' = Some [(''name'', ''widgets'')] \<and>
   (\<exists>c'' opts'. cfg_set cfg_widgets ''metadata'' ''Name'' ''gadgets'' = Inr c'' \<and>
      map_of (sections c'') ''metadata'' = Some opts' \<and>
      map_of opts' ''name'' = Some ''gadgets'' \<and>
      (\<forall>k. k \<noteq> ''name'' \<longrightarrow> map_of opts' k = map_of [(''name'', ''widgets'')] k) \<and>
      (\<forall>s. s \<noteq> ''metadata'' \<longrightarrow> map_of (sections c'') s = map_of (sections cfg_widgets) s) \<and>
      defaults c'' = defaults cfg_widgets) \<and>
   cfg_set cfg_widgets ''DEFAULT'' ''Name'' ''gadgets''
     = Inr (cfg_widgets\<lparr>defaults := [(''name'', ''gadgets'')]\<rparr>) \<and>
   load_cfg env_ok (files no_coverage_world) (config_path no_coverage_world)
     = Inr cfg_no_coverage \<and>
   (\<exists>e. edit_cfg env_ok (info_gadgets, no_coverage_world)
           = (Inl e, (info_gadgets, no_coverage_world)))"
proof -
  have h1: "map_of (sections cfg_no_coverage) ''coverage:run'' = None" by code_simp
  have h2: "\<not> bad_percent ''gadgets''" by code_simp
  have h3: "map_of (sections cfg_widgets) ''metadata'' = Some [(''name'', ''widgets'')]"
    by code_simp
  have h4: "load_cfg env_ok (files no_coverage_world) (config_path no_coverage_world)
              = Inr cfg_no_coverage" by code_simp
  have h5: "lower ''Name'' = ''name''" by code_simp
  have h6: "AList.update ''name'' ''gadgets'' (defaults cfg_widgets) = [(''name'', ''gadgets'')]"
    by code_simp
  from set_needs_section [of cfg_no_coverage "''coverage:run''" "''gadgets''" "''source''"
      cfg_widgets "''metadata''" "[(''name'', ''widgets'')]" "''gadgets''" "''Name''"
      "''DEFAULT''" "''gadgets''" cfg_widgets "''Name''"
      env_ok no_coverage_world cfg_no_coverage info_gadgets] h1 h2 h3 h4
  show ?thesis unfolding h5 h6 by simp
qed

text \<open>
  C7, as the claim has it, fails: when the first line of the configuration is written
  and the next cannot be encoded, \<^verbatim>\<open>edit_cfg\<close> raises and leaves the file with that one
  line, neither as it was nor fully written.
\<close>

theorem failed_save_leaves_partial_file:
  "fst (edit_cfg env_unencodable (info_gadgets, widgets_world)) = Inl UnicodeEncodeError \<and>
   lookup (files widgets_world) [''home'', ''widgets-py'', ''setup.cfg'']
     = Some (File (ini_text cfg_widgets)) \<and>
   lookup (files (snd (snd (edit_cfg env_unencodable (info_gadgets, widgets_world)))))
     [''home'', ''widgets-py'', ''setup.cfg''] = Some (File (''[metadata]'' @ [CHR 0x0A]))"
  by code_simp

text \<open>
  C7, amended. The save of \<^verbatim>\<open>edit_cfg\<close> is not atomic: it opens the configuration file
  for writing, which empties it, and then writes. Whatever \<^verbatim>\<open>edit_cfg\<close> returns, the
  file system is left in one of three states. It is unchanged, when an error came before
  the file was opened or the open itself failed. Or the write failed after the open, and
  the configuration file holds the part of the new text that was written before the
  error, which may be nothing. Or \<^verbatim>\<open>edit_cfg\<close> succeeded and returns the library name that
  was configured, and the configuration file holds the whole new text. The new text is
  what \<^verbatim>\<open>ConfigParser.write\<close> prints for the configuration read from the file with the
  four options set for the target name. Nothing else in the world changes.
\<close>

theorem save_opens_then_writes:
  assumes "edit_cfg E (script_info, w) = (r, (script_info', w'))"
  shows "script_info' = script_info \<and> w' = w\<lparr>files := files w'\<rparr> \<and>
         ((\<exists>e. r = Inl e \<and> files w' = files w) \<or>
          (\<exists>c c' t e k.
             load_cfg E (files w) (config_path w) = Inr c \<and>
             name_target script_info = Some t \<and> renamed_config c t = Inr c' \<and>
             write_fault E (config_path w) (ini_text c') = Some (e, k) \<and> r = Inl e \<and>
             files w' = upd (config_path w) (Some (File (take k (ini_text c')))) (files w)) \<or>
          (\<exists>c c' t old_name.
             load_cfg E (files w) (config_path w) = Inr c \<and>
             cfg_get E c ''metadata'' ''name'' = Inr old_name \<and>
             name_target script_info = Some t \<and> renamed_config c t = Inr c' \<and>
             r = Inr old_name \<and>
             files w' = upd (config_path w) (Some (File (ini_text c'))) (files w)))"
proof -
  from edit_cfg_cases [OF assms]
  consider (early) e where "r = Inl e" "(script_info', w') = (script_info, w)"
    | (wrote) c c' t old_name u fs' where
        "load_cfg E (files w) (config_path w) = Inr c"
        "cfg_get E c ''metadata'' ''name'' = Inr old_name"
        "name_target script_info = Some t" "renamed_config c t = Inr c'"
        "write_text E (files w) (config_path w) (ini_text c') = (u, fs')"
        "(script_info', w') = (script_info, w\<lparr>files := fs'\<rparr>)"
        "r = (case u of Inl e \<Rightarrow> Inl e | Inr x \<Rightarrow> Inr old_name)"
    by blast
  then show ?thesis
  proof cases
    case early
    then show ?thesis by simp
  next
    case wrote
    from write_text_cases [OF wrote(5)]
    consider (a) e where "u = Inl e" "fs' = files w"
      | (b) e k where "write_fault E (config_path w) (ini_text c') = Some (e, k)" "u = Inl e"
          "fs' = upd (config_path w) (Some (File (take k (ini_text c')))) (files w)"
      | (c) "u = Inr ()" "fs' = upd (config_path w) (Some (File (ini_text c'))) (files w)"
      by blast
    then show ?thesis
    proof cases
      case a
      with wrote(6,7) show ?thesis by simp
    next
      case b
      with wrote have "script_info' = script_info \<and> w' = w\<lparr>files := files w'\<rparr> \<and>
        load_cfg E (files w) (config_path w) = Inr c \<and>
        name_target script_info = Some t \<and> renamed_config c t = Inr c' \<and>
        write_fault E (config_path w) (ini_text c') = Some (e, k) \<and> r = Inl e \<and>
        files w' = upd (config_path w) (Some (File (take k (ini_text c')))) (files w)"
        by simp
      then show ?thesis by blast
    next
      case c
      with wrote have "script_info' = script_info \<and> w' = w\<lparr>files := files w'\<rparr> \<and>
        load_cfg E (files w) (config_path w) = Inr c \<and>
        cfg_get E c ''metadata'' ''name'' = Inr old_name \<and>
        name_target script_info = Some t \<and> renamed_config c t = Inr c' \<and>
        r = Inr old_name \<and>
        files w' = upd (config_path w) (Some (File (ini_text c'))) (files w)"
        by simp
      then show ?thesis by blast
    qed
  qed
qed

theorem save_opens_then_writes_witness:
  "edit_cfg env_unencodable (info_gadgets, widgets_world)
     = (Inl UnicodeEncodeError, (info_gadgets,
          widgets_world\<lparr>files := upd (config_path widgets_world)
                                     (Some (File (''[metadata]'' @ [CHR 0x0A])))
                                     (files widgets_world)\<rparr>)) \<and>
   upd (config_path widgets_world) (Some (File (''[metadata]'' @ [CHR 0x0A])))
       (files widgets_world) \<noteq> files widgets_world \<and>
   (\<exists>c c' k.
      load_cfg env_unencodable (files widgets_world) (config_path widgets_world) = Inr c \<and>
      renamed_config c ''gadgets'' = Inr c' \<and>
      write_fault env_unencodable (config_path widgets_world) (ini_text c')
        = Some (UnicodeEncodeError, k) \<and>
      upd (config_path widgets_world) (Some (File (''[metadata]'' @ [CHR 0x0A])))
          (files widgets_world)
        = upd (config_path widgets_world) (Some (File (take k (ini_text c'))))
            (files widgets_world))"
proof -
  have h: "edit_cfg env_unencodable (info_gadgets, widgets_world)
     = (Inl UnicodeEncodeError, (info_gadgets,
          widgets_world\<lparr>files := upd (config_path widgets_world)
                                     (Some (File (''[metadata]'' @ [CHR 0x0A])))
                                     (files widgets_world)\<rparr>))"
    by code_simp
  have d: "upd (config_path widgets_world) (Some (File (''[metadata]'' @ [CHR 0x0A])))
       (files widgets_world) \<noteq> files widgets_world"
    by code_simp
  have n: "name_target info_gadgets = Some ''gadgets''" by code_simp
  from save_opens_then_writes [OF h] h d n show ?thesis by auto
qed

section \<open>The steps of \<^verbatim>\<open>alter_new\<close> work inside the new directory\<close>

lemma same_outside_refl: "same_outside t a a"
  by (simp add: same_outside_def)

lemma same_outside_trans: "same_outside t a b \<Longrightarrow> same_outside t b c \<Longrightarrow> same_outside t a c"
  by (simp add: same_outside_def)

lemma same_outside_upd: "t \<noteq> [] \<Longrightarrow> q \<noteq> [] \<Longrightarrow> same_outside t fs (upd (t @ q) x fs)"
  by (simp add: same_outside_def upd_cancel is_dir_upd_below)

lemma siblings_apart:
  assumes "a \<noteq> b"
  shows "\<not> prefix (d @ [a]) (d @ b # q)" and "\<not> prefix (d @ b # q) (d @ [a])"
  using assms by (auto simp: prefix_def)

lemma write_text_same_outside:
  assumes "write_text E fs (t @ q) s = (r, fs')" and "t \<noteq> []" and "q \<noteq> []"
  shows "same_outside t fs fs'"
  using write_text_cases [OF assms(1)] assms(2,3)
  by (auto simp: same_outside_refl same_outside_upd)

text \<open>
  What \<^verbatim>\<open>rmtree\<close> does: it fails with nothing changed, and not for want of permission;
  or it fails for want of permission with part of the directory removed; or it removes
  the directory. The directory is the one that the path leads to.
\<close>

lemma rmtree_at_cases:
  assumes "rmtree_at E fs q = (r, fs')"
  shows "(\<exists>e. r = Inl e \<and> e \<noteq> PermissionError \<and> fs' = fs) \<or>
         (\<exists>left. r = Inl PermissionError \<and> fs' = upd q (Some left) fs \<and> is_dir fs q) \<or>
         (q = [] \<and> r = Inl OSError \<and> fs' = Dir []) \<or>
         (r = Inr () \<and> q \<noteq> [] \<and> fs' = upd q None fs \<and> is_dir fs q)"
  using assms
  by (auto simp: rmtree_at_def is_dir_def split: option.splits node.splits if_splits)

lemma rmtree_cases:
  assumes "rmtree E fs p = (r, fs')"
  shows "(\<exists>e. r = Inl e \<and> e \<noteq> PermissionError \<and> fs' = fs) \<or>
         (\<exists>left. r = Inl PermissionError \<and> fs' = upd (lexical [] p) (Some left) fs \<and>
            is_dir fs (lexical [] p)) \<or>
         (lexical [] p = [] \<and> r = Inl OSError \<and> fs' = Dir []) \<or>
         (r = Inr () \<and> lexical [] p \<noteq> [] \<and> fs' = upd (lexical [] p) None fs \<and>
          is_dir fs (lexical [] p))"
proof (cases "resolve fs [] p")
  case (Inl e)
  with resolve_error [OF Inl] assms show ?thesis by (auto simp: rmtree_def)
next
  case (Inr q)
  from resolve_lexical [OF Inr] have q: "q = lexical [] p" .
  from Inr assms have "rmtree_at E fs q = (r, fs')" by (simp add: rmtree_def)
  from rmtree_at_cases [OF this] show ?thesis unfolding q .
qed

lemma rmtree_canonical_cases:
  assumes "rmtree E fs p = (r, fs')" and "p \<noteq> []" and "canonical p"
  shows "(\<exists>e. r = Inl e \<and> fs' = fs) \<or>
         (\<exists>left. r = Inl PermissionError \<and> fs' = upd p (Some left) fs \<and> is_dir fs p) \<or>
         (r = Inr () \<and> fs' = upd p None fs \<and> is_dir fs p)"
  using rmtree_cases [OF assms(1)] assms(2) lexical_canonical [OF assms(3), of "[]"]
  by auto

lemma rmtree_same_outside:
  assumes "rmtree E fs (t @ q) = (r, fs')" and "t \<noteq> []" and "q \<noteq> []" and "canonical (t @ q)"
  shows "same_outside t fs fs'"
proof -
  from assms have "t @ q \<noteq> []" by simp
  from rmtree_canonical_cases [OF assms(1) this assms(4)] assms(2,3) show ?thesis
    by (auto simp: same_outside_refl same_outside_upd)
qed

lemma rename_path_cases:
  assumes "rename_path E fs src dst = Inr fs'"
  shows "fs' = fs \<or>
         (\<exists>n. lookup fs src = Some n \<and> src \<noteq> [] \<and> dst \<noteq> [] \<and> dst \<noteq> src \<and>
              fs' = upd dst (Some n) (upd src None fs) \<and>
              (is_Dir n \<longrightarrow> (case lookup fs dst of None \<Rightarrow> True | Some (File s) \<Rightarrow> False
                               | Some (Dir kids) \<Rightarrow> kids = [])))"
  using assms
  by (auto simp: rename_path_def is_Dir_def split: option.splits node.splits if_splits list.splits)

lemma rename_path_same_outside:
  assumes "rename_path E fs (t @ [a]) (t @ [b]) = Inr fs'" and "t \<noteq> []"
  shows "same_outside t fs fs'"
proof -
  from rename_path_cases [OF assms(1)]
  consider "fs' = fs" | n where "fs' = upd (t @ [b]) (Some n) (upd (t @ [a]) None fs)"
    by blast
  then show ?thesis
  proof cases
    case 1
    then show ?thesis by (simp add: same_outside_refl)
  next
    case 2
    have "same_outside t fs (upd (t @ [a]) None fs)"
      using assms(2) by (simp add: same_outside_upd)
    moreover have "same_outside t (upd (t @ [a]) None fs) fs'"
      unfolding 2 using assms(2) by (simp add: same_outside_upd)
    ultimately show ?thesis by (rule same_outside_trans)
  qed
qed

text \<open>A copy that records no error is the same as its source.\<close>

lemma copy_faithful:
  "copy_node E src dst n = (False, r) \<Longrightarrow> r = Some n"
  "copy_kids E src dst kids = (False, kids') \<Longrightarrow> kids' = kids"
proof (induction E src dst n and E src dst kids arbitrary: r and kids'
    rule: copy_node_copy_kids.induct)
  case (1 E src dst s)
  then show ?case by (auto split: if_splits option.splits)
next
  case (2 E src dst kids)
  then show ?case by (auto split: if_splits prod.splits)
next
  case (3 E src dst)
  then show ?case by simp
next
  case (4 E src dst nk rest)
  obtain e1 r1 where c1: "copy_node E (src @ [fst nk]) (dst @ [fst nk]) (snd nk) = (e1, r1)"
    by (cases "copy_node E (src @ [fst nk]) (dst @ [fst nk]) (snd nk)")
  obtain e2 rest' where c2: "copy_kids E src dst rest = (e2, rest')"
    by (cases "copy_kids E src dst rest")
  from "4.prems" c1 c2 have e: "e1 = False" "e2 = False"
    and k: "kids' = (case r1 of None \<Rightarrow> rest' | Some k \<Rightarrow> (fst nk, k) # rest')"
    by auto
  from "4.IH"(1) [of r1] c1 e have "r1 = Some (snd nk)" by simp
  moreover from "4.IH"(2) [OF c1 [symmetric], of rest'] c2 e have "rest' = rest" by simp
  ultimately show ?case using k by simp
qed

lemma stays_within_refl: "stays_within t w w"
  by (simp add: stays_within_def same_outside_refl)

lemma stays_within_trans:
  "stays_within t w w1 \<Longrightarrow> stays_within t w1 w2 \<Longrightarrow> stays_within t w w2"
  by (auto simp: stays_within_def intro: same_outside_trans)

lemma stays_within_stderr: "stays_within t w (w\<lparr>stderr := x\<rparr>)"
  by (simp add: stays_within_def same_outside_refl)

lemma keeps_file_refl: "keeps_file p w w"
  by (simp add: keeps_file_def)

lemma keeps_file_trans: "keeps_file p w w1 \<Longrightarrow> keeps_file p w1 w2 \<Longrightarrow> keeps_file p w w2"
  by (simp add: keeps_file_def)

lemma keeps_file_upd:
  "\<not> prefix p q \<Longrightarrow> \<not> prefix q p \<Longrightarrow> files w' = upd q x (files w) \<Longrightarrow> keeps_file p w w'"
  by (simp add: keeps_file_def lookup_upd_other)

lemma keeps_file_same: "files w' = files w \<Longrightarrow> keeps_file p w w'"
  by (simp add: keeps_file_def)

lemma edit_cfg_stays:
  assumes "edit_cfg E (script_info, w) = (r, (script_info', w'))" and "cwd w \<noteq> []"
  shows "script_info' = script_info \<and> stays_within (cwd w) w w'"
proof -
  from edit_cfg_cases [OF assms(1)]
  consider (early) "(script_info', w') = (script_info, w)"
    | (wrote) c' u fs' where
        "write_text E (files w) (config_path w) (ini_text c') = (u, fs')"
        "(script_info', w') = (script_info, w\<lparr>files := fs'\<rparr>)"
    by blast
  then show ?thesis
  proof cases
    case early
    then show ?thesis by (simp add: stays_within_refl)
  next
    case wrote
    from wrote(1) assms(2) have "same_outside (cwd w) (files w) fs'"
      unfolding config_path_def by (rule write_text_same_outside) simp
    with wrote(2) show ?thesis by (simp add: stays_within_def)
  qed
qed

lemma edit_cfg_writes:
  assumes "edit_cfg E (script_info, w) = (Inr old_name, (script_info', w'))"
  shows "\<exists>c c' t. load_cfg E (files w) (config_path w) = Inr c \<and>
           cfg_get E c ''metadata'' ''name'' = Inr old_name \<and>
           name_target script_info = Some t \<and> renamed_config c t = Inr c' \<and>
           lookup (files w') (cwd w @ [''setup.cfg'']) = Some (File (ini_text c'))"
proof -
  from edit_cfg_cases [OF assms(1)]
  obtain c c' t old u fs' where c: "load_cfg E (files w) (config_path w) = Inr c"
    and g: "cfg_get E c ''metadata'' ''name'' = Inr old"
    and t: "name_target script_info = Some t" "renamed_config c t = Inr c'"
    and wt: "write_text E (files w) (config_path w) (ini_text c') = (u, fs')"
    and st: "(script_info', w') = (script_info, w\<lparr>files := fs'\<rparr>)"
    and r: "Inr old_name = (case u of Inl e \<Rightarrow> Inl e | Inr x \<Rightarrow> (Inr old :: error + string))"
    by blast
  from r have u: "u = Inr ()" and o: "old = old_name" by (cases u; simp)+
  with write_text_cases [OF wt]
  have fs': "fs' = upd (config_path w) (Some (File (ini_text c'))) (files w)"
    and ok: "config_path w \<noteq> []" "is_dir (files w) (parent (config_path w))"
      "valid_name (last (config_path w))"
    by auto
  from ok have "lookup (upd (config_path w) (Some (File (ini_text c'))) (files w))
                   (config_path w) = Some (File (ini_text c'))"
    by (rule lookup_upd_same)
  with fs' c g o t st show ?thesis by (auto simp: config_path_def)
qed

lemma rewrite_sphinx_conf_stays:
  assumes "rewrite_sphinx_conf E target_name w = (r, w')" and "cwd w \<noteq> []"
  shows "stays_within (cwd w) w w' \<and> keeps_file (cwd w @ [''setup.cfg'']) w w'"
proof (cases "read_text E (files w) (cwd w @ [''zdocs'', ''source'', ''conf-template''])")
  case (Inl e)
  with assms(1) show ?thesis
    by (simp add: rewrite_sphinx_conf_def stays_within_refl keeps_file_refl)
next
  case (Inr template_text)
  let ?p = "cwd w @ [''zdocs'', ''source'', ''conf.py'']"
  let ?s = "replace_all ''{lib-name-goes-here}'' target_name template_text"
  obtain u fs' where wt: "write_text E (files w) ?p ?s = (u, fs')"
    by (cases "write_text E (files w) ?p ?s")
  with Inr assms(1) have w': "w' = w\<lparr>files := fs'\<rparr>"
    by (simp add: rewrite_sphinx_conf_def Let_def)
  from wt assms(2) have "same_outside (cwd w) (files w) fs'"
    by (rule write_text_same_outside) simp
  moreover have "keeps_file (cwd w @ [''setup.cfg'']) w w'"
  proof -
    have apart: "\<not> prefix (cwd w @ [''setup.cfg'']) ?p" "\<not> prefix ?p (cwd w @ [''setup.cfg''])"
      by (simp_all add: prefix_def)
    from write_text_cases [OF wt] w' show ?thesis
      by (auto intro: keeps_file_same keeps_file_upd [OF apart])
  qed
  ultimately show ?thesis using w' by (simp add: stays_within_def)
qed

text \<open>
  The path of the directory \<^verbatim>\<open><old_name>.egg-info\<close> for a library name without \<^verbatim>\<open>/\<close>:
  an entry of the working directory.
\<close>

lemma egg_name: "valid_name (old_name @ ''.egg-info'') = plain_name old_name"
  by (auto simp: valid_name_def plain_name_def append_eq_Cons_conv)

lemma os_path_egg:
  assumes "plain_name old_name"
  shows "os_path d (old_name @ ''.egg-info'') = d @ [old_name @ ''.egg-info'']"
proof -
  from assms have "CHR ''/'' \<notin> set (old_name @ ''.egg-info'')" by (simp add: plain_name_def)
  then have "split_on CHR ''/'' (old_name @ ''.egg-info'') = [old_name @ ''.egg-info'']"
    by (rule split_on_plain)
  then have k: "kernel_parts (old_name @ ''.egg-info'') = [old_name @ ''.egg-info'']"
    by (simp add: kernel_parts_def)
  from assms have "\<not> absolute (old_name @ ''.egg-info'')"
    by (cases old_name) (auto simp: absolute_def plain_name_def)
  with k show ?thesis by (simp add: os_path_def)
qed

lemma egg_not_cfg: "old_name @ ''.egg-info'' \<noteq> ''setup.cfg''"
proof
  assume "old_name @ ''.egg-info'' = ''setup.cfg''"
  then have "last (old_name @ ''.egg-info'') = last ''setup.cfg''" by simp
  then show False by simp
qed

lemma rmtree_child_stays:
  assumes "rmtree E fs (t @ [c]) = (r, fs')" and "t \<noteq> []" and "c \<noteq> ''setup.cfg''"
    and "canonical (t @ [c])"
  shows "same_outside t fs fs'"
    and "lookup fs (t @ [''setup.cfg'']) = Some (File x)
           \<Longrightarrow> lookup fs' (t @ [''setup.cfg'']) = Some (File x)"
proof -
  from assms(1,2) _ assms(4) show "same_outside t fs fs'" by (rule rmtree_same_outside) simp
  have apart: "\<not> prefix (t @ [c]) (t @ [''setup.cfg''])" "\<not> prefix (t @ [''setup.cfg'']) (t @ [c])"
    using assms(3) by (auto simp: prefix_def)
  have ne: "t @ [c] \<noteq> []" by simp
  assume "lookup fs (t @ [''setup.cfg'']) = Some (File x)"
  with rmtree_canonical_cases [OF assms(1) ne assms(4)] apart
  show "lookup fs' (t @ [''setup.cfg'']) = Some (File x)"
    by (auto simp: lookup_upd_other)
qed

lemma remove_egg_info_stays:
  assumes "remove_egg_info E old_name w = (r, w')" and "cwd w \<noteq> []"
    and "canonical (cwd w)" and "plain_name old_name"
  shows "stays_within (cwd w) w w' \<and> keeps_file (cwd w @ [''setup.cfg'']) w w'"
proof -
  let ?p = "cwd w @ [old_name @ ''.egg-info'']"
  have p: "os_path (cwd w) (old_name @ ''.egg-info'') = ?p"
    using assms(4) by (rule os_path_egg)
  from assms(3,4) have cp: "canonical ?p"
    by (simp add: canonical_append) (simp add: canonical_def egg_name)
  obtain r1 fs1 where r1: "rmtree E (files w) ?p = (r1, fs1)"
    by (cases "rmtree E (files w) ?p")
  obtain r2 fs2 where r2: "rmtree E fs1 ?p = (r2, fs2)"
    by (cases "rmtree E fs1 ?p")
  note one = rmtree_child_stays [OF r1 assms(2) egg_not_cfg cp]
  note two = rmtree_child_stays [OF r2 assms(2) egg_not_cfg cp]
  from assms(1) r1 r2 have "w' = w\<lparr>files := fs1\<rparr> \<or> w' = w\<lparr>files := fs2\<rparr>"
    unfolding remove_egg_info_def p
    by (auto simp: Let_def split: sum.splits error.splits)
  then show ?thesis
  proof
    assume "w' = w\<lparr>files := fs1\<rparr>"
    with one show ?thesis by (simp add: stays_within_def keeps_file_def)
  next
    assume "w' = w\<lparr>files := fs2\<rparr>"
    with one two show ?thesis
      by (auto simp: stays_within_def keeps_file_def intro: same_outside_trans)
  qed
qed

text \<open>
  Whatever the library name, a removal of \<^verbatim>\<open><old_name>.egg-info\<close> that \<^verbatim>\<open>alter_new\<close>
  takes for done has changed nothing or has removed one directory.
\<close>

lemma remove_egg_info_done:
  assumes "remove_egg_info E old_name w = (Inr (), w')"
  shows "w' = w\<lparr>files := files w'\<rparr> \<and>
         (files w' = files w \<or>
          (\<exists>q. q \<noteq> [] \<and> is_dir (files w) q \<and> files w' = upd q None (files w)))"
proof -
  let ?p = "os_path (cwd w) (old_name @ ''.egg-info'')"
  let ?q = "lexical [] ?p"
  obtain r1 fs1 where r1: "rmtree E (files w) ?p = (r1, fs1)"
    by (cases "rmtree E (files w) ?p")
  obtain r2 fs2 where r2: "rmtree E fs1 ?p = (r2, fs2)"
    by (cases "rmtree E fs1 ?p")
  from rmtree_cases [OF r1]
  consider (same) e where "r1 = Inl e" "e \<noteq> PermissionError" "fs1 = files w"
    | (part) left where "r1 = Inl PermissionError" "fs1 = upd ?q (Some left) (files w)"
        "is_dir (files w) ?q"
    | (root) "r1 = Inl OSError" "fs1 = Dir []"
    | (gone) "r1 = Inr ()" "?q \<noteq> []" "fs1 = upd ?q None (files w)" "is_dir (files w) ?q"
    by blast
  then show ?thesis
  proof cases
    case same
    with assms r1 show ?thesis
      by (auto simp: remove_egg_info_def Let_def split: error.splits)
  next
    case part
    with assms r1 r2 have w': "w' = w\<lparr>files := fs2\<rparr>" and ok: "r2 = Inr ()"
      by (auto simp: remove_egg_info_def Let_def split: sum.splits)
    from rmtree_cases [OF r2] ok have q: "?q \<noteq> []" and "fs2 = upd ?q None fs1" by auto
    with part(2) have "fs2 = upd ?q None (files w)" by (simp add: upd_upd_same)
    with w' q part(3) show ?thesis by auto
  next
    case root
    with assms r1 show ?thesis
      by (auto simp: remove_egg_info_def Let_def)
  next
    case gone
    with assms r1 have "w' = w\<lparr>files := fs1\<rparr>"
      by (auto simp: remove_egg_info_def Let_def)
    with gone show ?thesis by auto
  qed
qed

lemma rename_step_keeps:
  assumes ren: "rename_path E fs (t @ [a]) (t @ [b]) = Inr fs'"
    and init: "lookup fs (t @ [a, ''__init__.py'']) \<noteq> None"
    and cfg: "lookup fs (t @ [''setup.cfg'']) = Some (File x)"
  shows "lookup fs' (t @ [''setup.cfg'']) = Some (File x)"
proof -
  from rename_path_cases [OF ren]
  consider "fs' = fs"
    | n where "lookup fs (t @ [a]) = Some n"
        "fs' = upd (t @ [b]) (Some n) (upd (t @ [a]) None fs)"
        "is_Dir n \<longrightarrow> (case lookup fs (t @ [b]) of None \<Rightarrow> True | Some (File s) \<Rightarrow> False
                         | Some (Dir kids) \<Rightarrow> kids = [])"
    by blast
  then show ?thesis
  proof cases
    case 1
    with cfg show ?thesis by simp
  next
    case 2
    from init have "lookup fs ((t @ [a]) @ [''__init__.py'']) \<noteq> None" by simp
    with 2(1) have "lookup n [''__init__.py''] \<noteq> None"
      unfolding lookup_append [of fs "t @ [a]"] by simp
    then have dir: "is_Dir n" by (cases n) (auto simp: is_Dir_def)
    with 2(1) cfg have a: "a \<noteq> ''setup.cfg''" by (auto simp: is_Dir_def)
    from dir 2(3) cfg have b: "b \<noteq> ''setup.cfg''" by auto
    have "\<not> prefix (t @ [a]) (t @ [''setup.cfg''])" "\<not> prefix (t @ [''setup.cfg'']) (t @ [a])"
      "\<not> prefix (t @ [b]) (t @ [''setup.cfg''])" "\<not> prefix (t @ [''setup.cfg'']) (t @ [b])"
      using a b by (auto simp: prefix_def)
    with 2(2) cfg show ?thesis by (simp add: lookup_upd_other)
  qed
qed

lemma with_name_sibling: "with_name (t @ [a]) new_name = Inr p \<Longrightarrow> p = t @ [new_name]"
  by (auto simp: with_name_def parent_def split: if_splits)

lemma rename_loop_stays:
  assumes "rename_loop E old_name target_name dirs n i w = (r, w')" and "cwd w \<noteq> []"
  shows "stays_within (cwd w) w w' \<and> keeps_file (cwd w @ [''setup.cfg'']) w w'"
  using assms
proof (induction E old_name target_name dirs n i w rule: rename_loop.induct)
  case (1 E old_name target_name n i w)
  then show ?case by (simp add: stays_within_refl keeps_file_refl)
next
  case (2 E old_name target_name parent_name dirs n i w)
  show ?case
  proof (cases "lookup (files w) (cwd w @ [parent_name, ''__init__.py'']) = None")
    case True
    with 2 show ?thesis by simp
  next
    case init: False
    show ?thesis
    proof (cases "lower parent_name = ''zdevelop''")
      case True
      with init "2.prems" "2.IH"(2) show ?thesis by (simp del: not_None_eq)
    next
      case nz: False
      have step: "rename_loop E old_name target_name (parent_name # dirs) n i w =
        (case new_name_for E old_name parent_name target_name of
           Inl e \<Rightarrow> (Inl e, w)
         | Inr new_name \<Rightarrow>
        (case with_name (cwd w @ [parent_name]) new_name of
           Inl e \<Rightarrow> (Inl e, w)
         | Inr target_path \<Rightarrow>
        (case rename_path E (files w) (cwd w @ [parent_name]) target_path of
           Inl (FileExistsError m) \<Rightarrow>
             (Inl (FileExistsError m), w\<lparr>stderr := stderr w @ collision_note target_name\<rparr>)
         | Inl e \<Rightarrow> (Inl e, w)
         | Inr fs' \<Rightarrow>
             rename_loop E old_name target_name dirs (Suc n) (Some n) (w\<lparr>files := fs'\<rparr>))))"
        using init nz by (simp del: not_None_eq)
      note run0 = "2.prems"(1) [unfolded step]
      show ?thesis
      proof (cases "new_name_for E old_name parent_name target_name")
        case (Inl e)
        with run0 have "w' = w" by simp
        then show ?thesis by (simp add: stays_within_refl keeps_file_refl)
      next
        case nn: (Inr new_name)
        show ?thesis
        proof (cases "with_name (cwd w @ [parent_name]) new_name")
          case (Inl e)
          with run0 nn have "w' = w" by simp
          then show ?thesis by (simp add: stays_within_refl keeps_file_refl)
        next
          case tp: (Inr target_path)
          then have tpe: "target_path = cwd w @ [new_name]" by (rule with_name_sibling)
          show ?thesis
          proof (cases "rename_path E (files w) (cwd w @ [parent_name]) target_path")
            case (Inl e)
            with run0 nn tp have "w' = w \<or> (\<exists>x. w' = w\<lparr>stderr := x\<rparr>)"
              by (auto split: error.splits)
            then show ?thesis
              by (auto simp: stays_within_refl keeps_file_refl stays_within_stderr
                  keeps_file_def)
          next
            case ren: (Inr fs')
            let ?w1 = "w\<lparr>files := fs'\<rparr>"
            from run0 nn tp ren
            have run: "rename_loop E old_name target_name dirs (Suc n) (Some n) ?w1 = (r, w')"
              by simp
            from "2.prems"(2) have c1: "cwd ?w1 \<noteq> []" by simp
            from "2.IH"(3) [OF init nz nn tp ren run c1]
            have ih: "stays_within (cwd w) ?w1 w'" "keeps_file (cwd w @ [''setup.cfg'']) ?w1 w'"
              by simp_all
            from ren tpe have ren': "rename_path E (files w) (cwd w @ [parent_name])
                                       (cwd w @ [new_name]) = Inr fs'" by simp
            from ren' "2.prems"(2) have "same_outside (cwd w) (files w) fs'"
              by (rule rename_path_same_outside)
            then have "stays_within (cwd w) w ?w1" by (simp add: stays_within_def)
            moreover have "keeps_file (cwd w @ [''setup.cfg'']) w ?w1"
              using rename_step_keeps [OF ren' init] by (simp add: keeps_file_def)
            ultimately show ?thesis using ih
              by (blast intro: stays_within_trans keeps_file_trans)
          qed
        qed
      qed
    qed
  qed
qed

lemma rename_packages_stays:
  assumes "rename_packages E old_name target_name w = (r, w')" and "cwd w \<noteq> []"
  shows "stays_within (cwd w) w w' \<and> keeps_file (cwd w @ [''setup.cfg'']) w w'"
proof -
  obtain r1 w1 where
    loop: "rename_loop E old_name target_name (glob_dirs E (files w) (cwd w)) 1 None w = (r1, w1)"
    by (cases "rename_loop E old_name target_name (glob_dirs E (files w) (cwd w)) 1 None w")
  with assms(1) have "w' = w1"
    by (auto simp: rename_packages_def split: sum.splits if_splits)
  with rename_loop_stays [OF loop assms(2)] show ?thesis by simp
qed

lemma alter_new_stays:
  assumes "alter_new E (script_info, w) = (r, (script_info', w'))" and "cwd w \<noteq> []"
    and "canonical (cwd w)"
    and plain: "\<And>c old_name. load_cfg E (files w) (config_path w) = Inr c \<Longrightarrow>
                  cfg_get E c ''metadata'' ''name'' = Inr old_name \<Longrightarrow> plain_name old_name"
  shows "script_info' = script_info \<and> stays_within (cwd w) w w'"
proof -
  obtain r1 si1 w1 where e: "edit_cfg E (script_info, w) = (r1, (si1, w1))"
    by (cases "edit_cfg E (script_info, w)") auto
  from edit_cfg_stays [OF e assms(2)]
  have si1: "si1 = script_info" and s1: "stays_within (cwd w) w w1" by simp_all
  from s1 have c1: "cwd w1 = cwd w" by (simp add: stays_within_def)
  show ?thesis
  proof (cases r1)
    case (Inl x)
    with e assms(1) si1 s1 show ?thesis by (auto simp: alter_new_def)
  next
    case old: (Inr old_name)
    from edit_cfg_writes [OF e [unfolded old]] plain have po: "plain_name old_name" by blast
    show ?thesis
    proof (cases "name_target script_info")
      case None
      with e old assms(1) si1 s1 show ?thesis by (auto simp: alter_new_def)
    next
      case t: (Some target_name)
      obtain r2 w2 where s: "rewrite_sphinx_conf E target_name w1 = (r2, w2)"
        by (cases "rewrite_sphinx_conf E target_name w1")
      from rewrite_sphinx_conf_stays [OF s] assms(2) c1
      have s2: "stays_within (cwd w) w1 w2" by simp
      from s2 c1 have c2: "cwd w2 = cwd w" by (simp add: stays_within_def)
      show ?thesis
      proof (cases r2)
        case (Inl x)
        with e old t s assms(1) si1 have "script_info' = script_info" "w' = w2" "r = Inl x"
          by (auto simp: alter_new_def)
        with s1 s2 show ?thesis by (auto intro: stays_within_trans)
      next
        case r2: (Inr u2)
        obtain r3 w3 where g: "remove_egg_info E old_name w2 = (r3, w3)"
          by (cases "remove_egg_info E old_name w2")
        from remove_egg_info_stays [OF g _ _ po] assms(2,3) c2
        have s3: "stays_within (cwd w) w2 w3" by simp
        from s3 c2 have c3: "cwd w3 = cwd w" by (simp add: stays_within_def)
        show ?thesis
        proof (cases r3)
          case (Inl x)
          with e old t s r2 g assms(1) si1
          have "script_info' = script_info" "w' = w3" "r = Inl x"
            by (auto simp: alter_new_def)
          with s1 s2 s3 show ?thesis by (auto intro: stays_within_trans)
        next
          case r3: (Inr u3)
          obtain r4 w4 where p: "rename_packages E old_name target_name w3 = (r4, w4)"
            by (cases "rename_packages E old_name target_name w3")
          from rename_packages_stays [OF p] assms(2) c3
          have s4: "stays_within (cwd w) w3 w4" by simp
          from e old t s r2 g r3 p assms(1) si1
          have res: "script_info' = script_info" "w' = w4" "r = r4"
            by (auto simp: alter_new_def)
          from s1 s2 s3 s4 have within: "stays_within (cwd w) w w4"
            by (blast intro: stays_within_trans)
          with res show ?thesis by simp
        qed
      qed
    qed
  qed
qed

text \<open>
  When \<^verbatim>\<open>alter_new\<close> succeeds, the working directory is still a directory and its
  configuration file holds the text of the configuration read from it, with the four
  options set for the target name.
\<close>

lemma rename_packages_done:
  assumes "rename_packages E old_name target_name w = (Inr (), w')"
  shows "is_dir (files w) (cwd w)"
proof -
  have "glob_dirs E (files w) (cwd w) \<noteq> []"
  proof
    assume "glob_dirs E (files w) (cwd w) = []"
    with assms show False by (simp add: rename_packages_def)
  qed
  then show ?thesis
    by (auto simp: glob_dirs_def is_dir_def split: option.splits node.splits)
qed

lemma alter_new_done:
  assumes "alter_new E (script_info, w) = (Inr (), (script_info', w'))" and "cwd w \<noteq> []"
  shows "script_info' = script_info \<and> cwd w' = cwd w \<and> argv w' = argv w \<and>
         stdout w' = stdout w \<and> is_dir (files w') (cwd w) \<and>
         (\<exists>c c' t. load_cfg E (files w) (config_path w) = Inr c \<and>
            name_target script_info = Some t \<and> renamed_config c t = Inr c' \<and>
            lookup (files w') (cwd w @ [''setup.cfg'']) = Some (File (ini_text c')))"
proof -
  let ?cfg = "cwd w @ [''setup.cfg'']"
  obtain r1 si1 w1 where e: "edit_cfg E (script_info, w) = (r1, (si1, w1))"
    by (cases "edit_cfg E (script_info, w)") auto
  from edit_cfg_stays [OF e assms(2)]
  have si1: "si1 = script_info" and s1: "stays_within (cwd w) w w1" by simp_all
  from e assms(1) obtain old_name where old: "r1 = Inr old_name"
    by (cases r1) (auto simp: alter_new_def)
  from e assms(1) old si1 obtain target_name where t: "name_target script_info = Some target_name"
    by (cases "name_target script_info") (auto simp: alter_new_def)
  obtain r2 w2 where s: "rewrite_sphinx_conf E target_name w1 = (r2, w2)"
    by (cases "rewrite_sphinx_conf E target_name w1")
  from e assms(1) old si1 t s have r2: "r2 = Inr ()"
    by (cases r2) (auto simp: alter_new_def)
  obtain r3 w3 where g: "remove_egg_info E old_name w2 = (r3, w3)"
    by (cases "remove_egg_info E old_name w2")
  from e assms(1) old si1 t s r2 g have r3: "r3 = Inr ()"
    by (cases r3) (auto simp: alter_new_def)
  from e assms(1) old si1 t s r2 g r3
  have p: "rename_packages E old_name target_name w3 = (Inr (), w')"
    and si': "script_info' = script_info"
    by (auto simp: alter_new_def split: prod.splits)
  from s1 have c1: "cwd w1 = cwd w" "argv w1 = argv w" "stdout w1 = stdout w"
    by (simp_all add: stays_within_def)
  from rewrite_sphinx_conf_stays [OF s] assms(2) c1
  have s2: "stays_within (cwd w) w1 w2" and k2: "keeps_file ?cfg w1 w2" by simp_all
  from s2 c1 have c2: "cwd w2 = cwd w" "argv w2 = argv w" "stdout w2 = stdout w"
    by (simp_all add: stays_within_def)
  from remove_egg_info_done [OF g [unfolded r3]]
  have w3: "w3 = w2\<lparr>files := files w3\<rparr>"
    and f3: "files w3 = files w2 \<or>
             (\<exists>q. q \<noteq> [] \<and> is_dir (files w2) q \<and> files w3 = upd q None (files w2))"
    by simp_all
  from w3 c2 have c3: "cwd w3 = cwd w" "argv w3 = argv w" "stdout w3 = stdout w"
    by (metis world.select_convs world.surjective world.update_convs(1))+
  from rename_packages_stays [OF p] assms(2) c3
  have s4: "stays_within (cwd w) w3 w'" and k4: "keeps_file ?cfg w3 w'" by simp_all
  from rename_packages_done [OF p] c3 have d3: "is_dir (files w3) (cwd w)" by simp
  with s4 have d': "is_dir (files w') (cwd w)"
    by (simp add: stays_within_def same_outside_def)
  from e old si1 have "edit_cfg E (script_info, w) = (Inr old_name, (script_info, w1))" by simp
  from edit_cfg_writes [OF this] t obtain c c'
    where c: "load_cfg E (files w) (config_path w) = Inr c"
      "renamed_config c target_name = Inr c'"
      and l1: "lookup (files w1) ?cfg = Some (File (ini_text c'))"
    by auto
  from l1 k2 have l2: "lookup (files w2) ?cfg = Some (File (ini_text c'))"
    by (simp add: keeps_file_def)
  have l3: "lookup (files w3) ?cfg = Some (File (ini_text c'))"
    using f3
  proof
    assume "files w3 = files w2"
    with l2 show ?thesis by simp
  next
    assume "\<exists>q. q \<noteq> [] \<and> is_dir (files w2) q \<and> files w3 = upd q None (files w2)"
    then obtain q where q: "q \<noteq> []" "is_dir (files w2) q" "files w3 = upd q None (files w2)"
      by blast
    from q(2) obtain n where n: "lookup (files w2) q = Some n"
      by (auto simp: is_dir_def split: option.splits)
    from lookup_parent_is_dir [OF n q(1)] have pd: "is_dir (files w2) (parent q)" .
    from lookup_canonical [OF n] q(1) have vl: "valid_name (last q)"
      by (cases q rule: rev_cases) (auto simp: canonical_def)
    have below: "lookup (files w3) (q @ x) = None" for x
      unfolding q(3) using lookup_upd_below [OF q(1) pd vl, of None x] by simp
    have "\<not> prefix q ?cfg"
    proof
      assume "prefix q ?cfg"
      then consider "q = ?cfg" | "prefix q (cwd w)" by (auto simp: prefix_snoc)
      then show False
      proof cases
        case 1
        with q(2) l2 show False by (simp add: is_dir_def)
      next
        case 2
        then obtain x where "cwd w = q @ x" by (auto simp: prefix_def)
        with below [of x] d3 show False by (simp add: is_dir_def)
      qed
    qed
    moreover have "\<not> prefix ?cfg q"
    proof
      assume "prefix ?cfg q"
      then obtain x where x: "q = ?cfg @ x" by (auto simp: prefix_def)
      from n have "lookup (files w2) (?cfg @ x) = Some n" unfolding x .
      with l2 have "lookup (File (ini_text c')) x = Some n"
        unfolding lookup_append [of "files w2" ?cfg x] by simp
      then have "x = []" by (cases x) auto
      with x q(2) l2 show False by (simp add: is_dir_def)
    qed
    ultimately show ?thesis using q(3) l2 by (simp add: lookup_upd_other)
  qed
  with k4 have "lookup (files w') ?cfg = Some (File (ini_text c'))"
    by (simp add: keeps_file_def)
  with si' s4 c3 d' c t show ?thesis by (auto simp: stays_within_def)
qed

section \<open>The copy and the \<^verbatim>\<open>try\<close> block\<close>

text \<open>
  \<^verbatim>\<open>copytree\<close> from a directory to a new entry beside it: it fails with nothing
  changed, or it makes the entry and copies into it.
\<close>

lemma makedirs_beside:
  assumes "is_dir fs src" and "valid_name c"
  shows "makedirs E fs (parent src @ [c]) =
           (if lookup fs (parent src @ [c]) \<noteq> None
            then (Inl (FileExistsError (path_str (parent src @ [c]))), fs)
            else if denied E OpMkdir (parent src @ [c]) then (Inl PermissionError, fs)
            else (Inr (), upd (parent src @ [c]) (Some (Dir [])) fs))"
proof -
  have pd: "is_dir fs (parent src)"
  proof (cases "src = []")
    case True
    with assms(1) show ?thesis by (simp add: parent_def)
  next
    case False
    from assms(1) obtain n where "lookup fs src = Some n"
      by (auto simp: is_dir_def split: option.splits)
    from lookup_parent_is_dir [OF this False] show ?thesis .
  qed
  then obtain kids where k: "lookup fs (parent src) = Some (Dir kids)"
    by (auto simp: is_dir_def split: option.splits node.splits)
  from pd have r: "resolve fs [] (parent src) = Inr (parent src)" by (rule resolve_is_dir)
  from pd have "path_exists fs (parent src)"
    by (intro path_exists_lookup) (auto simp: is_dir_def split: option.splits)
  then have "makedirs E fs (parent src @ [c]) = mkdir E fs (parent src @ [c])"
    by (simp add: makedirs_def)
  also from r k assms(2) have "\<dots> =
           (if lookup fs (parent src @ [c]) \<noteq> None
            then (Inl (FileExistsError (path_str (parent src @ [c]))), fs)
            else if denied E OpMkdir (parent src @ [c]) then (Inl PermissionError, fs)
            else (Inr (), upd (parent src @ [c]) (Some (Dir [])) fs))"
    by (auto simp: mkdir_def valid_name_def)
  finally show ?thesis .
qed

lemma copytree_cases:
  assumes "copytree E fs src (parent src @ [c]) = (r, fs')" and "canonical src"
    and "valid_name c"
  shows "(\<exists>e. r = Inl e \<and> fs' = fs) \<or>
         (\<exists>kids errors kids'.
            lookup fs src = Some (Dir kids) \<and> lookup fs (parent src @ [c]) = None \<and>
            is_dir fs (parent src) \<and>
            copy_kids E src (parent src @ [c]) kids = (errors, kids') \<and>
            fs' = upd (parent src @ [c]) (Some (Dir kids')) fs \<and>
            ((r = Inr () \<and> kids' = kids) \<or> r = Inl ShutilError))"
proof -
  let ?d = "parent src @ [c]"
  from resolve_canonical_cases [OF assms(2), of fs]
  consider (bad) e where "resolve fs [] src = Inl e" | (ok) "resolve fs [] src = Inr src"
    by blast
  then show ?thesis
  proof cases
    case bad
    with assms(1) show ?thesis by (auto simp: copytree_def)
  next
    case ok
    show ?thesis
    proof (cases "lookup fs src")
      case None
      with ok assms(1) show ?thesis by (auto simp: copytree_def)
    next
      case (Some n)
      show ?thesis
      proof (cases n)
        case (File x)
        with Some ok assms(1) show ?thesis by (auto simp: copytree_def)
      next
        case (Dir kids)
        with Some have sd: "is_dir fs src" by (simp add: is_dir_def)
        have pd: "is_dir fs (parent src)"
        proof (cases "src = []")
          case True
          with sd show ?thesis by (simp add: parent_def)
        next
          case False
          from lookup_parent_is_dir [OF Some False] show ?thesis .
        qed
        note mk = makedirs_beside [OF sd assms(3), of E]
        show ?thesis
        proof (cases "denied E OpList src \<or> lookup fs ?d \<noteq> None \<or> denied E OpMkdir ?d")
          case True
          with Some Dir ok assms(1) mk show ?thesis
            by (auto simp: copytree_def split: if_splits)
        next
          case False
          let ?fs1 = "upd ?d (Some (Dir [])) fs"
          from False mk have m: "makedirs E fs ?d = (Inr (), ?fs1)" by simp
          have "lookup ?fs1 ?d = Some (Dir [])"
            using pd assms(3) by (intro lookup_upd_same) (simp_all add: parent_def)
          then have "is_dir ?fs1 ?d" by (simp add: is_dir_def)
          then have rd: "resolve ?fs1 [] ?d = Inr ?d" by (rule resolve_is_dir)
          have ns: "\<not> strict_prefix src (butlast ?d)"
          proof
            assume "strict_prefix src (butlast ?d)"
            then have "prefix src (butlast src)" by (simp add: parent_def strict_prefix_def)
            then have "length src \<le> length (butlast src)" by (rule prefix_length_le)
            moreover from \<open>strict_prefix src (butlast ?d)\<close> have "src \<noteq> []"
              by (auto simp: parent_def)
            ultimately show False by (cases src rule: rev_cases) auto
          qed
          obtain errors kids' where ck: "copy_kids E src ?d kids = (errors, kids')"
            by (cases "copy_kids E src ?d kids")
          from Some Dir ok False m rd ns ck assms(1)
          have r: "r = (if errors \<or> denied E OpChmod ?d then Inl ShutilError else Inr ())"
            and fs': "fs' = upd ?d (Some (Dir kids')) ?fs1"
            by (auto simp: copytree_def)
          from fs' have fs'': "fs' = upd ?d (Some (Dir kids')) fs" by (simp add: upd_upd_same)
          from r copy_faithful(2) [of E src ?d kids kids'] ck
          have "(r = Inr () \<and> kids' = kids) \<or> r = Inl ShutilError"
            by (auto split: if_splits)
          with Some Dir False pd ck fs'' show ?thesis by auto
        qed
      qed
    qed
  qed
qed

text \<open>
  The \<^verbatim>\<open>try\<close> block for a target name without \<^verbatim>\<open>/\<close>, up to the call of
  \<^verbatim>\<open>alter_new\<close>: it fails with \<^verbatim>\<open>new_created\<close> unset, having changed nothing or
  having left a partial copy at the destination; or the copy is made and the block ends
  as \<^verbatim>\<open>alter_new\<close> does.
\<close>

lemma try_block_cases:
  assumes "2 \<le> length (argv w)" and "argv w ! 1 \<noteq> []" and "plain_name (argv w ! 1)"
    and "canonical (cwd w)"
  shows "(\<exists>e script_info w1.
            main_try E (ScriptInfo, w) = (Inl e, (script_info, w1)) \<and>
            \<not> new_created script_info \<and> w1 = w\<lparr>files := files w1\<rparr> \<and>
            (files w1 = files w \<or>
             (\<exists>kids'. lookup (files w) (destination w) = None \<and> is_dir (files w) (cwd w) \<and>
                files w1 = upd (destination w) (Some (Dir kids')) (files w)))) \<or>
         (\<exists>kids. lookup (files w) (cwd w) = Some (Dir kids) \<and>
            lookup (files w) (destination w) = None \<and>
            main_try E (ScriptInfo, w) =
              (case alter_new E (info_created w, world_copied w) of
                 (Inl e, st4) \<Rightarrow> (Inl e, st4)
               | (Inr u, (script_info', w4)) \<Rightarrow>
                   (Inr (), (script_info',
                      w4\<lparr>stdout := stdout w4 @
                                    path_str (path_opt w4 (path_target script_info'))\<rparr>))))"
proof -
  let ?n = "argv w ! 1"
  let ?t = "parent (cwd w) @ [?n @ ''-py'']"
  let ?si1 = "ScriptInfo\<lparr>name_target := Some ?n\<rparr>"
  let ?si2 = "?si1\<lparr>path_original := Some (cwd w), path_target := Some ?t\<rparr>"
  from assms(3) have t: "destination w = ?t" by (rule destination_plain)
  from assms(3) have vn: "valid_name (?n @ ''-py'')" by (simp add: valid_name_py)
  from assms(4) vn have ct: "canonical ?t"
    by (simp add: canonical_append parent_def canonical_butlast) (simp add: canonical_def)
  from assms(1,2) have l: "load_target_name (ScriptInfo, w) = (Inr (), (?si1, w))"
    by (simp add: load_target_name_def Let_def)
  note pd = path_div_plain [OF assms(3), of "parent (cwd w)"]
  obtain u fs' where c: "copytree E (files w) (cwd w) ?t = (u, fs')"
    by (cases "copytree E (files w) (cwd w) ?t")
  have m: "make_new_directory E (?si1, w) =
     (if path_exists (files w) ?t
      then (Inl (FileExistsError (''directory '' @ path_str ?t @ '' exists'')), (?si2, w))
      else (case u of Inl e \<Rightarrow> (Inl e, (?si2, w\<lparr>files := fs'\<rparr>))
            | Inr x \<Rightarrow> (Inr (), (?si2\<lparr>new_created := True\<rparr>, w\<lparr>files := fs'\<rparr>))))"
    unfolding make_new_directory_def using c pd
    by (simp add: str_opt_def Let_def split: sum.splits)
  have nc: "\<not> new_created ?si2" by (simp add: ScriptInfo_def)
  show ?thesis
  proof (cases "path_exists (files w) ?t")
    case True
    with l m have "main_try E (ScriptInfo, w) =
        (Inl (FileExistsError (''directory '' @ path_str ?t @ '' exists'')), (?si2, w))"
      by (simp add: main_try_def)
    with nc show ?thesis by auto
  next
    case False
    with ct have absent: "lookup (files w) ?t = None" by (simp add: path_exists_canonical)
    from copytree_cases [OF c assms(4) vn]
    consider (same) e where "u = Inl e" "fs' = files w"
      | (part) kids' where "u = Inl ShutilError" "is_dir (files w) (cwd w)"
          "fs' = upd ?t (Some (Dir kids')) (files w)"
      | (whole) kids where "u = Inr ()" "lookup (files w) (cwd w) = Some (Dir kids)"
          "is_dir (files w) (parent (cwd w))" "fs' = upd ?t (Some (Dir kids)) (files w)"
      by (auto simp: is_dir_def)
    then show ?thesis
    proof cases
      case same
      with False l m have "main_try E (ScriptInfo, w) = (Inl e, (?si2, w\<lparr>files := fs'\<rparr>))"
        by (simp add: main_try_def)
      with nc same(2) show ?thesis by auto
    next
      case part
      with False l m
      have "main_try E (ScriptInfo, w) = (Inl ShutilError, (?si2, w\<lparr>files := fs'\<rparr>))"
        by (simp add: main_try_def)
      with nc part(2,3) absent t show ?thesis by auto
    next
      case whole
      let ?si3 = "?si2\<lparr>new_created := True\<rparr>"
      let ?w2 = "w\<lparr>files := fs'\<rparr>"
      from whole False m have m': "make_new_directory E (?si1, w) = (Inr (), (?si3, ?w2))"
        by simp
      have here: "lookup fs' ?t = Some (Dir kids)"
        unfolding whole(4) using whole(3) vn
        by (intro lookup_upd_same) (simp_all add: parent_def)
      then have "is_dir fs' ?t" by (simp add: is_dir_def)
      then have "resolve fs' [] ?t = Inr ?t" by (rule resolve_is_dir)
      with here have ch: "chdir (path_opt ?w2 (path_target ?si3)) ?w2 = (Inr (), ?w2\<lparr>cwd := ?t\<rparr>)"
        by (simp add: chdir_def path_opt_def)
      have si: "?si3 = info_created w" by (simp add: info_created_def t)
      have ww: "?w2\<lparr>cwd := ?t\<rparr> = world_copied w"
        by (simp add: world_copied_def t whole(2,4))
      from l m' ch have "main_try E (ScriptInfo, w) =
              (case alter_new E (?si3, ?w2\<lparr>cwd := ?t\<rparr>) of
                 (Inl e, st4) \<Rightarrow> (Inl e, st4)
               | (Inr u, (script_info', w4)) \<Rightarrow>
                   (Inr (), (script_info',
                      w4\<lparr>stdout := stdout w4 @
                                    path_str (path_opt w4 (path_target script_info'))\<rparr>)))"
        by (simp add: main_try_def)
      with whole(2) absent show ?thesis unfolding si ww t by blast
    qed
  qed
qed

section \<open>Packages and partial copies, checked\<close>

text \<open>
  C4. A project whose only directory with \<^verbatim>\<open>__init__.py\<close> is \<^verbatim>\<open>zdevelop\<close> has no
  qualifying package, and the rename step should fail with the error
  \<^verbatim>\<open>no packages found in library\<close>. It does not: the loop variable \<open>i\<close> is assigned
  for the skipped directory too, so \<^verbatim>\<open>rename_packages\<close> returns normally, renames
  nothing, and \<^verbatim>\<open>main\<close> succeeds, keeping the destination and removing the original.
\<close>

theorem zdevelop_only_is_accepted:
  "rename_packages env_ok ''widgets'' ''gadgets'' zdevelop_world = (Inr (), zdevelop_world) \<and>
   fst (main env_ok zdevelop_world) = Inr () \<and>
   is_dir (files (snd (snd (main env_ok zdevelop_world)))) [''home'', ''gadgets-py'', ''zdevelop''] \<and>
   lookup (files (snd (snd (main env_ok zdevelop_world)))) [''home'', ''widgets-py''] = None"
  by code_simp

text \<open>
  C6. When a file of the project cannot be read, \<^verbatim>\<open>copytree\<close> makes the destination
  directory, copies the rest and raises. \<^verbatim>\<open>new_created\<close> is still unset then, so the
  handler of \<^verbatim>\<open>main\<close> removes nothing and the partial destination stays on disk.
\<close>

theorem partial_copy_is_left_behind:
  "fst (main env_unreadable widgets_world) = Inl ShutilError \<and>
   new_created (fst (snd (main env_unreadable widgets_world))) = False \<and>
   lookup (files (snd (snd (main env_unreadable widgets_world)))) [''home'', ''gadgets-py'']
     = Some (Dir [(''setup.cfg'', File (ini_text cfg_widgets)),
                  (''zdocs'', Dir [(''source'', Dir [])]),
                  (''widgets'', Dir [(''__init__.py'', File [])])])"
  by code_simp


section \<open>Rollback and commit, checked\<close>

text \<open>The world in which \<^verbatim>\<open>alter_new\<close> starts.\<close>

lemma world_copied_facts:
  assumes "lookup (files w) (cwd w) = Some (Dir kids)"
    and "lookup (files w) (destination w) = None" and "plain_name (argv w ! 1)"
  shows "cwd (world_copied w) = destination w" and "argv (world_copied w) = argv w"
    and "stdout (world_copied w) = stdout w" and "destination w \<noteq> []"
    and "is_dir (files (world_copied w)) (destination w)"
    and "upd (destination w) None (files (world_copied w)) = files w"
    and "lookup (files (world_copied w)) (destination w @ q) = lookup (files w) (cwd w @ q)"
    and "canonical (destination w)"
proof -
  let ?t = "destination w"
  from assms(3) have t: "?t = parent (cwd w) @ [argv w ! 1 @ ''-py'']"
    by (rule destination_plain)
  show "cwd (world_copied w) = ?t" "argv (world_copied w) = argv w"
    "stdout (world_copied w) = stdout w"
    by (simp_all add: world_copied_def)
  from t show tne: "?t \<noteq> []" by simp
  have f: "files (world_copied w) = upd ?t (Some (Dir kids)) (files w)"
    using assms(1) by (simp add: world_copied_def)
  have pd: "is_dir (files w) (parent ?t)"
  proof (cases "cwd w = []")
    case True
    with assms(1) t show ?thesis by (simp add: parent_def is_dir_def)
  next
    case False
    from lookup_parent_is_dir [OF assms(1) False] t show ?thesis by (simp add: parent_def)
  qed
  from assms(3) t have vl: "valid_name (last ?t)" by (simp add: valid_name_py)
  from lookup_upd_below [OF tne pd vl, of "Some (Dir kids)"] f
  have below: "lookup (files (world_copied w)) (?t @ q) = lookup (Dir kids) q" for q by simp
  from below [of "[]"] show "is_dir (files (world_copied w)) ?t" by (simp add: is_dir_def)
  from below [of q] assms(1)
  show "lookup (files (world_copied w)) (?t @ q) = lookup (files w) (cwd w @ q)"
    by (simp add: lookup_append)
  have "upd ?t None (files (world_copied w)) = upd ?t None (upd (?t @ []) (Some (Dir kids)) (files w))"
    by (simp add: f)
  also have "\<dots> = upd ?t None (files w)" using tne by (rule upd_cancel)
  also have "\<dots> = files w" using assms(2) by (rule upd_absent)
  finally show "upd ?t None (files (world_copied w)) = files w" .
  from is_dir_canonical [OF pd] vl tne show "canonical ?t"
    by (cases ?t rule: rev_cases) (auto simp: canonical_def parent_def)
qed

lemma destination_beside:
  assumes "cwd w \<noteq> []" and "lookup (files w) (destination w) = None"
    and "is_dir (files w) (cwd w)" and "plain_name (argv w ! 1)"
  shows "\<not> prefix (cwd w) (destination w @ q)" and "\<not> prefix (destination w @ q) (cwd w)"
proof -
  from assms(1) obtain d a where c: "cwd w = d @ [a]" by (cases "cwd w" rule: rev_cases) auto
  then have t: "destination w = d @ [argv w ! 1 @ ''-py'']"
    by (simp add: destination_plain [OF assms(4)] parent_def)
  from assms(2,3) have "destination w \<noteq> cwd w" by (auto simp: is_dir_def)
  with c t have ne: "a \<noteq> argv w ! 1 @ ''-py''" by auto
  from siblings_apart [OF ne, of d q] c t
  show "\<not> prefix (cwd w) (destination w @ q)" and "\<not> prefix (destination w @ q) (cwd w)"
    by simp_all
qed

lemma main_try_args:
  assumes "main_try E (ScriptInfo, w) = (r, (script_info, w1))"
  shows "(2 \<le> length (argv w) \<and> argv w ! 1 \<noteq> []) \<or>
         ((\<exists>e. r = Inl e) \<and> w1 = w \<and> \<not> new_created script_info)"
  using assms
  by (cases "length (argv w) < 2 \<or> argv w ! 1 = []")
     (auto simp: main_try_def load_target_name_def Let_def ScriptInfo_def split: if_splits)

lemma main_success_try:
  assumes "main E w = (Inr (), (script_info, w'))"
  shows "\<exists>w1 fs'. main_try E (ScriptInfo, w) = (Inr (), (script_info, w1)) \<and>
           rmtree E (files w1) (path_opt w1 (path_original script_info)) = (Inr (), fs') \<and>
           w' = w1\<lparr>files := fs'\<rparr>"
proof -
  obtain r si w1 where t: "main_try E (ScriptInfo, w) = (r, (si, w1))"
    by (cases "main_try E (ScriptInfo, w)") auto
  show ?thesis
  proof (cases r)
    case (Inl e)
    with t assms show ?thesis
      by (auto simp: main_def split: if_splits prod.splits sum.splits)
  next
    case (Inr u)
    with t assms show ?thesis
      by (auto simp: main_def split: prod.splits)
  qed
qed

text \<open>
  The \<^verbatim>\<open>try\<close> block, when it succeeds for a target name without \<^verbatim>\<open>/\<close>, leaves the
  destination as a directory with the new configuration file, and has written the
  destination path to standard output.
\<close>

lemma main_try_done:
  assumes "main_try E (ScriptInfo, w) = (Inr (), (script_info, w1))"
    and "plain_name (argv w ! 1)" and "canonical (cwd w)"
  shows "2 \<le> length (argv w) \<and> argv w ! 1 \<noteq> [] \<and> script_info = info_created w \<and>
         lookup (files w) (destination w) = None \<and> is_dir (files w) (cwd w) \<and>
         is_dir (files w1) (destination w) \<and>
         stdout w1 = stdout w @ path_str (destination w) \<and>
         (\<exists>s c c'. lookup (files w) (cwd w @ [''setup.cfg'']) = Some (File s) \<and>
            parse_ini E s = Inr c \<and> renamed_config c (argv w ! 1) = Inr c' \<and>
            lookup (files w1) (destination w @ [''setup.cfg'']) = Some (File (ini_text c')))"
proof -
  let ?t = "destination w"
  from main_try_args [OF assms(1)] have args: "2 \<le> length (argv w)" "argv w ! 1 \<noteq> []"
    by auto
  from try_block_cases [OF args assms(2,3), of E] assms(1)
  obtain kids where k: "lookup (files w) (cwd w) = Some (Dir kids)"
    and absent: "lookup (files w) ?t = None"
    and m: "main_try E (ScriptInfo, w) =
              (case alter_new E (info_created w, world_copied w) of
                 (Inl e, st4) \<Rightarrow> (Inl e, st4)
               | (Inr u, (script_info', w4)) \<Rightarrow>
                   (Inr (), (script_info',
                      w4\<lparr>stdout := stdout w4 @
                                    path_str (path_opt w4 (path_target script_info'))\<rparr>)))"
    by auto
  note wc = world_copied_facts [OF k absent assms(2)]
  obtain r4 si4 w4 where a: "alter_new E (info_created w, world_copied w) = (r4, (si4, w4))"
    by (cases "alter_new E (info_created w, world_copied w)") auto
  from m a assms(1) have r4: "r4 = Inr ()" and si: "script_info = si4"
    and w1: "w1 = w4\<lparr>stdout := stdout w4 @ path_str (path_opt w4 (path_target si4))\<rparr>"
    by (auto split: sum.splits)
  from wc(1,4) have "cwd (world_copied w) \<noteq> []" by simp
  from alter_new_done [OF a [unfolded r4] this, unfolded wc(1-3)]
  obtain c c' where si4: "si4 = info_created w" and o4: "stdout w4 = stdout w"
    and d4: "is_dir (files w4) ?t"
    and c: "load_cfg E (files (world_copied w)) (config_path (world_copied w)) = Inr c"
      "renamed_config c (argv w ! 1) = Inr c'"
    and l4: "lookup (files w4) (?t @ [''setup.cfg'']) = Some (File (ini_text c'))"
    by (auto simp: info_created_def)
  have cp: "lookup (files (world_copied w)) (config_path (world_copied w))
            = lookup (files w) (cwd w @ [''setup.cfg''])"
    using wc(7) [of "[''setup.cfg'']"] by (simp add: config_path_def wc(1))
  from renamed_config_needs [OF c(2)] have "sections c \<noteq> []" by auto
  with c(1) cp obtain s where "lookup (files w) (cwd w @ [''setup.cfg'']) = Some (File s)"
    "parse_ini E s = Inr c"
    by (auto simp: load_cfg_def empty_config_def split: option.splits node.splits if_splits)
  with c(2) l4 w1 have "\<exists>s c c'. lookup (files w) (cwd w @ [''setup.cfg'']) = Some (File s) \<and>
            parse_ini E s = Inr c \<and> renamed_config c (argv w ! 1) = Inr c' \<and>
            lookup (files w1) (?t @ [''setup.cfg'']) = Some (File (ini_text c'))"
    by auto
  moreover from w1 si4 o4 have "stdout w1 = stdout w @ path_str ?t"
    by (simp add: path_opt_def info_created_def)
  moreover from k have "is_dir (files w) (cwd w)" by (simp add: is_dir_def)
  ultimately show ?thesis using args si si4 absent d4 w1 by simp
qed

lemma stored_cfg_set_same:
  "cfg_set c sec opt v = Inr c' \<Longrightarrow> sec \<noteq> [] \<Longrightarrow> sec \<noteq> default_section \<Longrightarrow>
   stored c' sec (lower opt) = Some v"
  by (auto simp: cfg_set_def stored_def map_of_update_same split: if_splits option.splits)

lemma stored_cfg_set_other:
  "cfg_set c sec opt v = Inr c' \<Longrightarrow> sec' \<noteq> sec \<Longrightarrow> stored c' sec' opt' = stored c sec' opt'"
  by (auto simp: cfg_set_def stored_def map_of_update_other split: if_splits option.splits)

lemma renamed_config_stored:
  assumes "renamed_config c t = Inr c'"
  shows "stored c' ''metadata'' ''name'' = Some t \<and>
         stored c' ''coverage:run'' ''source'' = Some t \<and>
         stored c' ''coverage:html'' ''title'' = Some (''coverage report for '' @ t) \<and>
         stored c' ''build_sphinx'' ''project'' = Some t"
proof -
  from assms obtain c1 c2 c3
    where c1: "cfg_set c ''metadata'' ''name'' t = Inr c1"
      and c2: "cfg_set c1 ''coverage:run'' ''source'' t = Inr c2"
      and c3: "cfg_set c2 ''coverage:html'' ''title'' (''coverage report for '' @ t) = Inr c3"
      and c4: "cfg_set c3 ''build_sphinx'' ''project'' t = Inr c'"
    by (auto simp: renamed_config_def split: sum.splits)
  have "stored c' ''metadata'' ''name'' = Some t"
    using stored_cfg_set_same [OF c1]
      stored_cfg_set_other [OF c2, of "''metadata''" "''name''"]
      stored_cfg_set_other [OF c3, of "''metadata''" "''name''"]
      stored_cfg_set_other [OF c4, of "''metadata''" "''name''"]
    by (simp add: lower_literals section_literals)
  moreover have "stored c' ''coverage:run'' ''source'' = Some t"
    using stored_cfg_set_same [OF c2]
      stored_cfg_set_other [OF c3, of "''coverage:run''" "''source''"]
      stored_cfg_set_other [OF c4, of "''coverage:run''" "''source''"]
    by (simp add: lower_literals section_literals)
  moreover have "stored c' ''coverage:html'' ''title'' = Some (''coverage report for '' @ t)"
    using stored_cfg_set_same [OF c3]
      stored_cfg_set_other [OF c4, of "''coverage:html''" "''title''"]
    by (simp add: lower_literals section_literals)
  moreover have "stored c' ''build_sphinx'' ''project'' = Some t"
    using stored_cfg_set_same [OF c4] by (simp add: lower_literals section_literals)
  ultimately show ?thesis by simp
qed

text \<open>
  C3, as the claim has it, fails for a target name with \<^verbatim>\<open>/\<close> in it. For the project
  \<^verbatim>\<open>/home/widgets-py\<close> and the target name \<^verbatim>\<open>widgets-py/sub\<close> the destination is
  \<^verbatim>\<open>/home/widgets-py/sub-py\<close>, inside the project and not beside it; the run succeeds,
  and the removal of the original directory takes the destination with it.
\<close>

theorem destination_inside_is_removed:
  "fst (main env_ok inside_world) = Inr () \<and>
   argv inside_world ! 1 = ''widgets-py/sub'' \<and>
   path_target (fst (snd (main env_ok inside_world)))
     = Some [''home'', ''widgets-py'', ''sub-py''] \<and>
   destination inside_world = [''home'', ''widgets-py'', ''sub-py''] \<and>
   is_dir (files (snd (snd (main_try env_ok (ScriptInfo, inside_world)))))
     [''home'', ''widgets-py'', ''sub-py''] \<and>
   lookup (files (snd (snd (main env_ok inside_world)))) [''home'', ''widgets-py'', ''sub-py'']
     = None \<and>
   files (snd (snd (main env_ok inside_world))) = Dir [(''home'', Dir [])]"
  by code_simp

text \<open>
  The configuration file stores the target name as it was given. Read again, a name
  that starts with a space comes back without it.
\<close>

lemma spaced_name_is_read_stripped:
  "fst (main env_ok spaced_world) = Inr () \<and>
   lookup (files (snd (snd (main env_ok spaced_world)))) [''home'', '' x-py'', ''setup.cfg'']
     = Some (File (ini_text cfg_spaced)) \<and>
   stored cfg_spaced ''metadata'' ''name'' = Some '' x'' \<and>
   configured_name env_ok (files (snd (snd (main env_ok spaced_world)))) [''home'', '' x-py'']
     = Some ''x''"
  by code_simp

text \<open>
  C3, amended. After every run of \<^verbatim>\<open>main\<close> that succeeds for a target name without
  \<^verbatim>\<open>/\<close>, started in a working directory given by its canonical path: the target name
  is the non-empty first argument, the destination directory \<^verbatim>\<open><target>-py\<close> exists
  beside where the project root was, and the original directory no longer exists. The
  configuration file in the destination is the text that \<^verbatim>\<open>ConfigParser.write\<close> prints
  for the configuration parsed from the configuration file of the original, with the
  four options set by \<^verbatim>\<open>set\<close>: it stores the target name under \<^verbatim>\<open>metadata.name\<close>,
  \<^verbatim>\<open>coverage:run.source\<close> and \<^verbatim>\<open>build_sphinx.project\<close>, and
  \<^verbatim>\<open>coverage report for <target>\<close> under \<^verbatim>\<open>coverage:html.title\<close>.
\<close>

theorem successful_run:
  assumes "main E w = (Inr (), (script_info, w'))"
    and "plain_name (argv w ! 1)" and "canonical (cwd w)"
  shows "2 \<le> length (argv w) \<and> argv w ! 1 \<noteq> [] \<and>
         name_target script_info = Some (argv w ! 1) \<and>
         path_target script_info = Some (parent (cwd w) @ [argv w ! 1 @ ''-py'']) \<and>
         is_dir (files w') (parent (cwd w) @ [argv w ! 1 @ ''-py'']) \<and>
         lookup (files w') (cwd w) = None \<and>
         (\<exists>s c c'. lookup (files w) (cwd w @ [''setup.cfg'']) = Some (File s) \<and>
              parse_ini E s = Inr c \<and> renamed_config c (argv w ! 1) = Inr c' \<and>
              lookup (files w') (parent (cwd w) @ [argv w ! 1 @ ''-py'', ''setup.cfg''])
                = Some (File (ini_text c')) \<and>
              stored c' ''metadata'' ''name'' = Some (argv w ! 1) \<and>
              stored c' ''coverage:run'' ''source'' = Some (argv w ! 1) \<and>
              stored c' ''build_sphinx'' ''project'' = Some (argv w ! 1) \<and>
              stored c' ''coverage:html'' ''title''
                = Some (''coverage report for '' @ argv w ! 1))"
proof -
  let ?t = "destination w"
  from main_success_try [OF assms(1)] obtain w1 fs'
    where t: "main_try E (ScriptInfo, w) = (Inr (), (script_info, w1))"
      and rm: "rmtree E (files w1) (path_opt w1 (path_original script_info)) = (Inr (), fs')"
      and w': "w' = w1\<lparr>files := fs'\<rparr>"
    by blast
  from main_try_done [OF t assms(2,3)] obtain s c c'
    where args: "2 \<le> length (argv w)" "argv w ! 1 \<noteq> []"
      and si: "script_info = info_created w"
      and absent: "lookup (files w) ?t = None" and od: "is_dir (files w) (cwd w)"
      and td: "is_dir (files w1) ?t"
      and cfg: "lookup (files w) (cwd w @ [''setup.cfg'']) = Some (File s)"
        "parse_ini E s = Inr c" "renamed_config c (argv w ! 1) = Inr c'"
        "lookup (files w1) (?t @ [''setup.cfg'']) = Some (File (ini_text c'))"
    by blast
  from rm si have rm': "rmtree E (files w1) (cwd w) = (Inr (), fs')"
    by (simp add: path_opt_def info_created_def)
  from rmtree_cases [OF rm'] lexical_canonical [OF assms(3), of "[]"]
  have ne: "cwd w \<noteq> []" and fs': "fs' = upd (cwd w) None (files w1)"
    and od1: "is_dir (files w1) (cwd w)"
    by auto
  from od1 obtain n where n: "lookup (files w1) (cwd w) = Some n"
    by (auto simp: is_dir_def split: option.splits)
  from lookup_parent_is_dir [OF n ne] have pd: "is_dir (files w1) (parent (cwd w))" .
  from lookup_canonical [OF n] ne have vl: "valid_name (last (cwd w))"
    by (cases "cwd w" rule: rev_cases) (auto simp: canonical_def)
  from ne pd vl fs' have gone: "lookup fs' (cwd w) = None" by (simp add: lookup_upd_same)
  note apart = destination_beside [OF ne absent od assms(2)]
  from apart [of "[]"] fs' have "lookup fs' ?t = lookup (files w1) ?t"
    by (simp add: lookup_upd_other)
  with td have dir: "is_dir fs' ?t" by (simp add: is_dir_def)
  from apart [of "[''setup.cfg'']"] fs' cfg(4)
  have cfile: "lookup fs' (?t @ [''setup.cfg'']) = Some (File (ini_text c'))"
    by (simp add: lookup_upd_other)
  note dp = destination_plain [OF assms(2)]
  from cfg(1-3) cfile renamed_config_stored [OF cfg(3)]
  have "\<exists>s c c'. lookup (files w) (cwd w @ [''setup.cfg'']) = Some (File s) \<and>
              parse_ini E s = Inr c \<and> renamed_config c (argv w ! 1) = Inr c' \<and>
              lookup fs' (?t @ [''setup.cfg'']) = Some (File (ini_text c')) \<and>
              stored c' ''metadata'' ''name'' = Some (argv w ! 1) \<and>
              stored c' ''coverage:run'' ''source'' = Some (argv w ! 1) \<and>
              stored c' ''build_sphinx'' ''project'' = Some (argv w ! 1) \<and>
              stored c' ''coverage:html'' ''title''
                = Some (''coverage report for '' @ argv w ! 1)"
    by blast
  with args si gone dir w' show ?thesis
    by (simp add: info_created_def dp)
qed

theorem successful_run_witness:
  "main env_ok widgets_world
     = (Inr (), (fst (snd (main env_ok widgets_world)), snd (snd (main env_ok widgets_world)))) \<and>
   plain_name (argv widgets_world ! 1) \<and> canonical (cwd widgets_world) \<and>
   name_target (fst (snd (main env_ok widgets_world))) = Some ''gadgets'' \<and>
   is_dir (files (snd (snd (main env_ok widgets_world)))) [''home'', ''gadgets-py''] \<and>
   lookup (files (snd (snd (main env_ok widgets_world)))) [''home'', ''widgets-py''] = None \<and>
   (\<exists>s c c'. lookup (files widgets_world) [''home'', ''widgets-py'', ''setup.cfg'']
                = Some (File s) \<and>
        parse_ini env_ok s = Inr c \<and> renamed_config c ''gadgets'' = Inr c' \<and>
        lookup (files (snd (snd (main env_ok widgets_world))))
            [''home'', ''gadgets-py'', ''setup.cfg''] = Some (File (ini_text c')) \<and>
        stored c' ''metadata'' ''name'' = Some ''gadgets'' \<and>
        stored c' ''coverage:run'' ''source'' = Some ''gadgets'' \<and>
        stored c' ''build_sphinx'' ''project'' = Some ''gadgets'' \<and>
        stored c' ''coverage:html'' ''title'' = Some ''coverage report for gadgets'')"
proof -
  have h: "main env_ok widgets_world
     = (Inr (), (fst (snd (main env_ok widgets_world)), snd (snd (main env_ok widgets_world))))"
    by code_simp
  have p: "plain_name (argv widgets_world ! 1)" by code_simp
  have k: "canonical (cwd widgets_world)" by code_simp
  have a: "argv widgets_world ! 1 = ''gadgets''" by code_simp
  have c: "cwd widgets_world = [''home'', ''widgets-py'']" by code_simp
  from successful_run [OF h p k] h p k show ?thesis
    unfolding a c by (simp add: parent_def)
qed

end
